theory Spec2Isabelle
  imports Complex_Main "HOL-Library.Signed_Division" "HOL-Library.Word"
begin

section \<open>Common types\<close>

text \<open>
  A Go \<open>error\<close> value is modelled by its message; \<open>nil\<close> is \<open>None\<close>.
  A \<open>time.Time\<close> is an instant in nanoseconds and \<open>time.Since t\<close>, read at the
  instant \<open>now\<close>, is \<open>now - t\<close>. The counters of the breaker, the monitor and the
  supervisor start at 0 and move by one per call; they are unbounded integers. The
  latency arithmetic of the monitor wraps around at 64 bits, and the fields of
  \<open>ReconnectionManager\<close>, which has no constructor, are 64-bit words.
\<close>

type_synonym error = string
type_synonym Time = int
type_synonym Duration = int

section \<open>CircuitBreaker\<close>

datatype CircuitState = CircuitClosed | CircuitOpen | CircuitHalfOpen

text \<open>
  The struct \<open>CircuitBreaker\<close>. The handler \<open>onStateChange\<close> runs on a goroutine of
  its own and cannot touch the breaker's fields: the model keeps whether one is set
  and, in \<open>notified\<close>, the pairs it has been started with.
\<close>

record CircuitBreaker =
  maxFailures :: int
  resetTimeout :: Duration
  halfOpenRequests :: int
  state :: CircuitState
  failures :: int
  successCount :: int
  lastFailTime :: Time
  halfOpenAttempts :: int
  onStateChange :: bool
  notified :: "(CircuitState \<times> CircuitState) list"

text \<open>The zero \<open>time.Time\<close> (1 January of year 1, UTC) in Unix nanoseconds.\<close>

definition zeroTime :: Time where
  "zeroTime = - 62135596800000000000"

definition NewCircuitBreaker :: "int \<Rightarrow> Duration \<Rightarrow> CircuitBreaker" where
  "NewCircuitBreaker mf rt =
     \<lparr>maxFailures = mf, resetTimeout = rt, halfOpenRequests = 1,
      state = CircuitClosed, failures = 0, successCount = 0, lastFailTime = zeroTime,
      halfOpenAttempts = 0, onStateChange = False, notified = []\<rparr>"

definition transitionToLocked :: "CircuitState \<Rightarrow> CircuitBreaker \<Rightarrow> CircuitBreaker" where
  "transitionToLocked newState cb =
     (let oldState = state cb in
      if oldState = newState then cb
      else
        let cb1 = cb\<lparr>state := newState\<rparr>;
            cb2 = (if newState = CircuitHalfOpen
                   then cb1\<lparr>halfOpenAttempts := 0, successCount := 0\<rparr>
                   else cb1)
        in if onStateChange cb2
           then cb2\<lparr>notified := notified cb2 @ [(oldState, newState)]\<rparr>
           else cb2)"

definition transitionTo :: "CircuitState \<Rightarrow> CircuitBreaker \<Rightarrow> CircuitBreaker" where
  "transitionTo newState cb = transitionToLocked newState cb"

text \<open>
  \<open>CanAttempt\<close> read at the instant \<open>now\<close>: the answer and the breaker it leaves.
\<close>

definition CanAttempt :: "Time \<Rightarrow> CircuitBreaker \<Rightarrow> bool \<times> CircuitBreaker" where
  "CanAttempt now cb =
     (case state cb of
        CircuitClosed \<Rightarrow> (True, cb)
      | CircuitOpen \<Rightarrow>
          (let shouldReset = (now - lastFailTime cb > resetTimeout cb) in
           if shouldReset then (True, transitionTo CircuitHalfOpen cb) else (False, cb))
      | CircuitHalfOpen \<Rightarrow>
          (if halfOpenAttempts cb < halfOpenRequests cb
           then (True, cb\<lparr>halfOpenAttempts := halfOpenAttempts cb + 1\<rparr>)
           else (False, cb)))"

definition recordFailure :: "CircuitState \<Rightarrow> Time \<Rightarrow> CircuitBreaker \<Rightarrow> CircuitBreaker" where
  "recordFailure currentState now cb =
     (let cb1 = cb\<lparr>failures := failures cb + 1, lastFailTime := now\<rparr> in
      case currentState of
        CircuitClosed \<Rightarrow>
          (if failures cb1 \<ge> maxFailures cb1 then transitionToLocked CircuitOpen cb1 else cb1)
      | CircuitHalfOpen \<Rightarrow> (transitionToLocked CircuitOpen cb1)\<lparr>halfOpenAttempts := 0\<rparr>
      | CircuitOpen \<Rightarrow> cb1)"

definition recordSuccess :: "CircuitState \<Rightarrow> CircuitBreaker \<Rightarrow> CircuitBreaker" where
  "recordSuccess currentState cb =
     (case currentState of
        CircuitHalfOpen \<Rightarrow>
          (let cb1 = cb\<lparr>successCount := successCount cb + 1\<rparr> in
           if successCount cb1 \<ge> halfOpenRequests cb1
           then transitionToLocked CircuitClosed
                  (cb1\<lparr>failures := 0, successCount := 0, halfOpenAttempts := 0\<rparr>)
           else cb1)
      | CircuitClosed \<Rightarrow> (if failures cb > 0 then cb\<lparr>failures := 0\<rparr> else cb)
      | CircuitOpen \<Rightarrow> cb)"

definition RecordResult :: "error option \<Rightarrow> Time \<Rightarrow> CircuitBreaker \<Rightarrow> CircuitBreaker" where
  "RecordResult err now cb =
     (let st = state cb in
      case err of
        Some e \<Rightarrow> recordFailure st now cb
      | None \<Rightarrow> recordSuccess st cb)"

definition Reset :: "CircuitBreaker \<Rightarrow> CircuitBreaker" where
  "Reset cb =
     cb\<lparr>failures := 0, successCount := 0, halfOpenAttempts := 0,
        lastFailTime := zeroTime, state := CircuitClosed\<rparr>"

text \<open>
  \<open>Call\<close>. The guarded function acts on a world \<open>'w\<close> outside the breaker and
  returns its error. \<open>now\<close> is the instant of the \<open>CanAttempt\<close> check and \<open>later\<close>
  the instant at which the result is recorded. Besides the returned error, the world
  and the breaker, the model gives the calls \<open>Call\<close> has made, in order.
\<close>

datatype call_event = FnInvoked | ResultRecorded "error option"

definition Call ::
  "('w \<Rightarrow> error option \<times> 'w) \<Rightarrow> Time \<Rightarrow> Time \<Rightarrow> 'w \<Rightarrow> CircuitBreaker
     \<Rightarrow> error option \<times> 'w \<times> CircuitBreaker \<times> call_event list" where
  "Call fn now later w cb =
     (case CanAttempt now cb of
        (False, cb1) \<Rightarrow> (Some ''circuit breaker is open'', w, cb1, [])
      | (True, cb1) \<Rightarrow>
          (case fn w of
             (err, w1) \<Rightarrow>
               (err, w1, RecordResult err later cb1, [FnInvoked, ResultRecorded err])))"

text \<open>
  A run of successive \<open>CanAttempt\<close> calls at the instants \<open>ts\<close>, with nothing recorded
  in between: the answers in order and the breaker at the end.
\<close>

fun CanAttempts :: "Time list \<Rightarrow> CircuitBreaker \<Rightarrow> bool list \<times> CircuitBreaker" where
  "CanAttempts [] cb = ([], cb)"
| "CanAttempts (t # ts) cb =
     (case CanAttempt t cb of
        (b, cb1) \<Rightarrow> (case CanAttempts ts cb1 of (bs, cb2) \<Rightarrow> (b # bs, cb2)))"

text \<open>
  \<open>SetStateChangeHandler\<close>, with the handler kept as set or nil.
\<close>

definition SetStateChangeHandler :: "bool \<Rightarrow> CircuitBreaker \<Rightarrow> CircuitBreaker" where
  "SetStateChangeHandler handler cb = cb\<lparr>onStateChange := handler\<rparr>"

text \<open>
  The methods of the breaker that write to it, as one step, and a breaker driven
  through a sequence of them. \<open>Call\<close> is a \<open>CanAttempt\<close> followed, when it answers
  true, by a \<open>RecordResult\<close>.
\<close>

datatype cb_op =
  OpCanAttempt Time | OpRecordResult "error option" Time | OpReset
  | OpSetStateChangeHandler bool

fun cb_step :: "cb_op \<Rightarrow> CircuitBreaker \<Rightarrow> CircuitBreaker" where
  "cb_step (OpCanAttempt now) cb = snd (CanAttempt now cb)"
| "cb_step (OpRecordResult err now) cb = RecordResult err now cb"
| "cb_step OpReset cb = Reset cb"
| "cb_step (OpSetStateChangeHandler handler) cb = SetStateChangeHandler handler cb"

fun run_ops :: "cb_op list \<Rightarrow> CircuitBreaker \<Rightarrow> CircuitBreaker" where
  "run_ops [] cb = cb"
| "run_ops (op # ops) cb = run_ops ops (cb_step op cb)"

text \<open>A breaker tripped at instant 0 with the default single half-open slot.\<close>

definition tripped :: CircuitBreaker where
  "tripped = (NewCircuitBreaker 3 100)\<lparr>state := CircuitOpen, failures := 3, lastFailTime := 0\<rparr>"

section \<open>float64\<close>

text \<open>
  The package has one floating-point expression,
  \<open>time.Duration(float64(delay) * sg.RestartPolicy.BackoffFactor)\<close> in
  \<open>calculateBackoff\<close>. A finite \<open>float64\<close> is a rational number with at most 53
  significant bits: \<open>Finite x\<close> stands for it by its value, \<open>NotFinite\<close> for the
  infinities and NaN. The conversion \<open>float64(delay)\<close> and the product round to the
  nearest such number, ties to the even significand; the conversion to
  \<open>time.Duration\<close> (an \<open>int64\<close>) drops the fraction.

  A \<open>Finite x\<close> is meant for an \<open>x\<close> that the rounding leaves as it is.

  \<open>bitlen n\<close> is the number of binary digits of \<open>n\<close>, \<open>ilog2 x\<close> the exponent \<open>e\<close>
  with \<open>2 ^ e \<le> x < 2 ^ (e + 1)\<close> for a positive \<open>x\<close>, and \<open>round53\<close> the rounding
  to 53 significant bits.
\<close>

fun bitlen :: "nat \<Rightarrow> nat" where
  "bitlen n = (if n = 0 then 0 else Suc (bitlen (n div 2)))"

declare bitlen.simps [simp del]

definition pow2 :: "int \<Rightarrow> rat" where
  "pow2 e = (if 0 \<le> e then 2 ^ nat e else 1 / 2 ^ nat (- e))"

definition ilog2 :: "rat \<Rightarrow> int" where
  "ilog2 x =
     (if 1 \<le> x then int (bitlen (nat \<lfloor>x\<rfloor>)) - 1
      else - int (bitlen (nat (\<lceil>1 / x\<rceil> - 1))))"

definition roundHalfEven :: "rat \<Rightarrow> int" where
  "roundHalfEven q =
     (let f = \<lfloor>q\<rfloor>; r = q - of_int f in
      if r < 1 / 2 then f
      else if r > 1 / 2 then f + 1
      else if even f then f else f + 1)"

definition round53 :: "rat \<Rightarrow> rat" where
  "round53 x =
     (if x = 0 then 0
      else let u = pow2 (ilog2 \<bar>x\<bar> - 52) in u * of_int (roundHalfEven (x / u)))"

datatype float64 = Finite rat | NotFinite

text \<open>
  The conversion of a \<open>float64\<close> to \<open>int64\<close>. For a value that \<open>int64\<close> cannot hold,
  and for NaN, Go leaves the result to the implementation; on amd64 it is the
  smallest \<open>int64\<close>, which is what the model gives.
\<close>

definition minInt64 :: int where
  "minInt64 = - (2 ^ 63)"

definition truncInt64 :: "rat \<Rightarrow> int" where
  "truncInt64 x =
     (let v = (if 0 \<le> x then \<lfloor>x\<rfloor> else - \<lfloor>- x\<rfloor>) in
      if - (2 ^ 63) \<le> v \<and> v < 2 ^ 63 then v else minInt64)"

text \<open>
  \<open>time.Duration(float64(d) * f)\<close>. The exponent range of \<open>float64\<close> does not show
  in the result: a product below \<open>2 ^ -1022\<close> in magnitude is rounded to something
  below 1 and truncated to 0, and one that overflows to an infinity is beyond
  \<open>int64\<close> before it does.
\<close>

definition durationMul :: "Duration \<Rightarrow> float64 \<Rightarrow> Duration" where
  "durationMul d f =
     (case f of
        NotFinite \<Rightarrow> minInt64
      | Finite y \<Rightarrow> truncInt64 (round53 (round53 (of_int d) * y)))"

section \<open>GoroutineSupervisor\<close>

text \<open>
  \<open>RestartPolicy\<close> and \<open>SupervisedGoroutine\<close>. \<open>OnFailure\<close> keeps whether a callback
  is set. In \<open>SupervisedGoroutine\<close> the field \<open>RestartPolicy\<close> is written \<open>policy\<close>,
  the name being the type's; the work function and the context are met through
  \<open>run_env\<close> below. \<open>restartCount\<close> starts at 0 and moves by one per failure; it
  is an unbounded integer.
\<close>

record RestartPolicy =
  MaxRestarts :: int
  RestartDelay :: Duration
  BackoffFactor :: float64
  MaxBackoffDelay :: Duration
  OnFailure :: bool

record SupervisedGoroutine =
  ID :: string
  Name :: string
  policy :: RestartPolicy
  running :: bool
  restartCount :: int
  lastError :: "error option"
  lastRestart :: Time

text \<open>
  The \<open>for\<close> loop of \<open>calculateBackoff\<close>, from the counter \<open>i\<close> and the delay so
  far; \<open>scale\<close> is the multiplication by the factor.
\<close>

function backoffLoop :: "(Duration \<Rightarrow> Duration) \<Rightarrow> Duration \<Rightarrow> int \<Rightarrow> int \<Rightarrow> Duration \<Rightarrow> Duration" where
  "backoffLoop scale maxDelay count i delay =
     (if i < count
      then (let delay1 = scale delay in
            if delay1 > maxDelay then maxDelay
            else backoffLoop scale maxDelay count (i + 1) delay1)
      else delay)"
  by pat_completeness auto
termination
  by (relation "measure (\<lambda>(scale, maxDelay, count, i, delay). nat (count - i))") auto

declare backoffLoop.simps [simp del]

definition calculateBackoff :: "SupervisedGoroutine \<Rightarrow> Duration" where
  "calculateBackoff sg =
     backoffLoop (\<lambda>d. durationMul d (BackoffFactor (policy sg))) (MaxBackoffDelay (policy sg))
       (restartCount sg) 1 (RestartDelay (policy sg))"

text \<open>
  The formula of the specification for the delay before restart \<open>n\<close>,
  \<open>min(baseDelay * factor^(n-1), maxDelay)\<close>, over the rationals.
\<close>

definition backoffFormula :: "Duration \<Rightarrow> rat \<Rightarrow> Duration \<Rightarrow> int \<Rightarrow> rat" where
  "backoffFormula baseDelay factor maxDelay n =
     min (of_int baseDelay * factor ^ nat (n - 1)) (of_int maxDelay)"

text \<open>
  The delay the specification gives for a worker; it gives none for a factor that is
  not a number.
\<close>

definition specifiedBackoff :: "SupervisedGoroutine \<Rightarrow> rat option" where
  "specifiedBackoff sg =
     (case BackoffFactor (policy sg) of
        NotFinite \<Rightarrow> None
      | Finite y \<Rightarrow>
          Some (backoffFormula (RestartDelay (policy sg)) y (MaxBackoffDelay (policy sg))
                  (restartCount sg)))"

text \<open>
  What a run of \<open>runGoroutine\<close> meets from outside, by the number \<open>k\<close> of the loop
  iteration (from 0): whether the supervisor's \<open>running\<close> flag is set at the head of
  the iteration, what the work function returns, whether the worker's context is done
  when it is checked after the work function returns, whether it is cancelled during
  the backoff wait, and the reading of the clock.
\<close>

record run_env =
  supervisorRunning :: "nat \<Rightarrow> bool"
  work :: "nat \<Rightarrow> error option"
  cancelledAfter :: "nat \<Rightarrow> bool"
  cancelledInWait :: "nat \<Rightarrow> bool"
  clock :: "nat \<Rightarrow> Time"

text \<open>
  What a run does, in order: an invocation of the work function, a failure with the
  restart count it sets (the log line "failed (restart n/max)"), a call of the
  \<open>OnFailure\<close> callback, a completed backoff wait (after which the loop starts the
  work function again).
\<close>

datatype sup_event =
  Invoked | Failed error int | OnFailureCalled error int | Slept Duration

function runLoop ::
  "run_env \<Rightarrow> nat \<Rightarrow> SupervisedGoroutine \<Rightarrow> sup_event list
     \<Rightarrow> SupervisedGoroutine \<times> sup_event list" where
  "runLoop env k sg tr =
     (if \<not> supervisorRunning env k then (sg, tr)
      else if cancelledAfter env k then (sg, tr @ [Invoked])
      else
        (case work env k of
           None \<Rightarrow> (sg, tr @ [Invoked])
         | Some e \<Rightarrow>
             (let sg1 = sg\<lparr>lastError := Some e, restartCount := restartCount sg + 1\<rparr>;
                  tr1 = tr @ [Invoked, Failed e (restartCount sg1)]
                          @ (if OnFailure (policy sg1)
                             then [OnFailureCalled e (restartCount sg1)] else [])
              in if restartCount sg1 > MaxRestarts (policy sg1) then (sg1, tr1)
                 else
                   (let delay = calculateBackoff sg1;
                        sg2 = sg1\<lparr>lastRestart := clock env k + delay\<rparr>
                    in if cancelledInWait env k then (sg2, tr1)
                       else runLoop env (Suc k) sg2 (tr1 @ [Slept delay])))))"
  by pat_completeness auto
termination
  by (relation "measure (\<lambda>(env, k, sg, tr).
        nat (MaxRestarts (policy sg) + 1 - restartCount sg))") auto

declare runLoop.simps [simp del]

text \<open>\<open>runGoroutine\<close>: the loop, then the deferred store of 0 to \<open>running\<close>.\<close>

definition runGoroutine :: "run_env \<Rightarrow> SupervisedGoroutine \<Rightarrow> SupervisedGoroutine \<times> sup_event list" where
  "runGoroutine env sg =
     (case runLoop env 0 sg [] of (sg1, tr) \<Rightarrow> (sg1\<lparr>running := False\<rparr>, tr))"

text \<open>\<open>DefaultRestartPolicy\<close>, with one second and thirty seconds in nanoseconds.\<close>

definition DefaultRestartPolicy :: RestartPolicy where
  "DefaultRestartPolicy =
     \<lparr>MaxRestarts = 5, RestartDelay = 1000000000, BackoffFactor = Finite 2,
      MaxBackoffDelay = 30000000000, OnFailure = False\<rparr>"

text \<open>
  The worker that \<open>Register\<close> builds and stores under its identifier. \<open>Register\<close>
  leaves the restart count at 0, and \<open>RestartGoroutine\<close> sets it to 0 before it
  starts the loop again.
\<close>

definition Register_worker :: "string \<Rightarrow> string \<Rightarrow> RestartPolicy \<Rightarrow> SupervisedGoroutine" where
  "Register_worker i n p =
     \<lparr>ID = i, Name = n, policy = p, running = False, restartCount = 0,
      lastError = None, lastRestart = zeroTime\<rparr>"

text \<open>
  A run in which the work function fails on every invocation and nothing is
  cancelled, under a started supervisor; and the same under a supervisor that has
  not been started, as when \<open>RestartGoroutine\<close> is called before \<open>Start\<close>.
\<close>

definition always_failing :: run_env where
  "always_failing =
     \<lparr>supervisorRunning = (\<lambda>k. True), work = (\<lambda>k. Some ''boom''),
      cancelledAfter = (\<lambda>k. False), cancelledInWait = (\<lambda>k. False),
      clock = (\<lambda>k. int k * 1000)\<rparr>"

definition not_started :: run_env where
  "not_started = always_failing\<lparr>supervisorRunning := (\<lambda>k. False)\<rparr>"

text \<open>
  Readings of a run: the completed backoff waits are the restarts, and the restart
  counts are listed in the order in which the failures set them.
\<close>

fun isSlept :: "sup_event \<Rightarrow> bool" where
  "isSlept (Slept d) = True"
| "isSlept e = False"

fun failedCounts :: "sup_event list \<Rightarrow> int list" where
  "failedCounts [] = []"
| "failedCounts (Failed e rc # tr) = rc # failedCounts tr"
| "failedCounts (ev # tr) = failedCounts tr"

definition invocations :: "sup_event list \<Rightarrow> nat" where
  "invocations tr = count_list tr Invoked"

definition restarts :: "sup_event list \<Rightarrow> nat" where
  "restarts tr = length (filter isSlept tr)"

text \<open>
  The supervisor has been started and neither it nor the worker's context is
  stopped; the work function returns an error on every invocation.
\<close>

definition never_stopped :: "run_env \<Rightarrow> bool" where
  "never_stopped env =
     (\<forall>k. supervisorRunning env k \<and> \<not> cancelledAfter env k \<and> \<not> cancelledInWait env k)"

definition always_errors :: "run_env \<Rightarrow> bool" where
  "always_errors env = (\<forall>k. work env k \<noteq> None)"

text \<open>Workers with a budget of two restarts and with a budget of -1.\<close>

definition worker0 :: SupervisedGoroutine where
  "worker0 = Register_worker ''w1'' ''reader'' (DefaultRestartPolicy\<lparr>MaxRestarts := 2\<rparr>)"

definition negative_budget :: SupervisedGoroutine where
  "negative_budget =
     Register_worker ''w3'' ''pinger'' (DefaultRestartPolicy\<lparr>MaxRestarts := - 1\<rparr>)"

text \<open>
  Policies at which the formula and the code part: a base delay above the cap, at
  the first restart; a factor of 1.5 on a base delay of one nanosecond; a base
  delay of \<open>2 ^ 53 + 1\<close> nanoseconds, which \<open>float64\<close> cannot hold, with the factor
  1.0, and the same below zero; and a factor of -20.
\<close>

definition capped_below_base :: SupervisedGoroutine where
  "capped_below_base =
     (Register_worker ''w2'' ''writer''
        (DefaultRestartPolicy\<lparr>RestartDelay := 60000000000\<rparr>))\<lparr>restartCount := 1\<rparr>"

definition fractional_factor :: SupervisedGoroutine where
  "fractional_factor =
     (Register_worker ''w4'' ''poller''
        (DefaultRestartPolicy\<lparr>RestartDelay := 1, BackoffFactor := Finite (3 / 2)\<rparr>))
       \<lparr>restartCount := 3\<rparr>"

definition beyond_float :: SupervisedGoroutine where
  "beyond_float =
     (Register_worker ''w5'' ''syncer''
        (DefaultRestartPolicy\<lparr>RestartDelay := 2 ^ 53 + 1, BackoffFactor := Finite 1,
                                MaxBackoffDelay := 2 ^ 62\<rparr>))
       \<lparr>restartCount := 2\<rparr>"

definition below_float :: SupervisedGoroutine where
  "below_float =
     (Register_worker ''w7'' ''flusher''
        (DefaultRestartPolicy\<lparr>RestartDelay := - (2 ^ 53 + 1), BackoffFactor := Finite 1\<rparr>))
       \<lparr>restartCount := 2\<rparr>"

definition negative_factor :: SupervisedGoroutine where
  "negative_factor =
     (Register_worker ''w6'' ''sender''
        (DefaultRestartPolicy\<lparr>RestartDelay := 1, BackoffFactor := Finite (- 20),
                                MaxBackoffDelay := 10\<rparr>))
       \<lparr>restartCount := 4\<rparr>"

section \<open>ReconnectionManager\<close>

text \<open>
  The struct \<open>ReconnectionManager\<close>. The package has no constructor for it and sets
  no bound on its fields, so its integers are machine integers: a Go \<open>int\<close> and a
  \<open>time.Duration\<close> are 64-bit words read as signed (\<open>sint\<close>), and \<open>+\<close> wraps around.
\<close>

type_synonym go_int = "64 word"

record ReconnectionManager =
  enabled :: bool
  attempts :: go_int
  maxAttempts :: go_int
  delay :: go_int
  backoffFunc :: "(go_int \<Rightarrow> go_int) option"

definition ShouldReconnect :: "ReconnectionManager \<Rightarrow> bool" where
  "ShouldReconnect r = (enabled r \<and> sint (attempts r) < sint (maxAttempts r))"

definition NextBackoff :: "ReconnectionManager \<Rightarrow> go_int" where
  "NextBackoff r =
     (case backoffFunc r of
        Some f \<Rightarrow> f (attempts r)
      | None \<Rightarrow> delay r)"

text \<open>
  \<open>Reset\<close> of the \<open>ReconnectionManager\<close> (the name \<open>Reset\<close> is taken by the
  breaker's method).
\<close>

definition Reset_attempts :: "ReconnectionManager \<Rightarrow> ReconnectionManager" where
  "Reset_attempts r = r\<lparr>attempts := 0\<rparr>"

definition GetAttempts :: "ReconnectionManager \<Rightarrow> go_int" where
  "GetAttempts r = attempts r"

definition GetMaxAttempts :: "ReconnectionManager \<Rightarrow> go_int" where
  "GetMaxAttempts r = maxAttempts r"

definition IsEnabled :: "ReconnectionManager \<Rightarrow> bool" where
  "IsEnabled r = enabled r"

definition SetEnabled :: "bool \<Rightarrow> ReconnectionManager \<Rightarrow> ReconnectionManager" where
  "SetEnabled e r = r\<lparr>enabled := e\<rparr>"

definition IncrementAttempts :: "ReconnectionManager \<Rightarrow> ReconnectionManager" where
  "IncrementAttempts r = r\<lparr>attempts := attempts r + 1\<rparr>"

text \<open>
  A manager two attempts into a budget of five, with a linear backoff function; and
  one whose attempt counter is at the largest \<open>int\<close>.
\<close>

definition manager0 :: ReconnectionManager where
  "manager0 = \<lparr>enabled = True, attempts = 2, maxAttempts = 5, delay = 1000,
               backoffFunc = Some (\<lambda>n. 100 * n)\<rparr>"

definition at_max_int :: ReconnectionManager where
  "at_max_int = manager0\<lparr>attempts := 9223372036854775807\<rparr>"

section \<open>HealthMonitor\<close>

datatype HealthStatus = HealthUnknown | HealthHealthy | HealthDegraded | HealthUnhealthy

record ConnectionMetrics =
  TotalMessages :: int
  SentMessages :: int
  ReceivedMessages :: int
  FailedMessages :: int
  ReconnectAttempts :: int
  SuccessfulReconnects :: int
  LastMessageSent :: Time
  LastMessageReceived :: Time
  LastReconnect :: Time
  ConnectionEstablished :: Time
  IsConnected :: bool
  IsAuthenticated :: bool
  CurrentLatency :: Duration
  AverageLatency :: Duration
  ConsecutiveErrors :: int
  LastError :: "error option"
  LastErrorTime :: Time

text \<open>
  The struct \<open>HealthMonitor\<close>. \<open>healthCheckFunc\<close> is \<open>None\<close> for a nil probe;
  a probe that is set gives the error of its invocation. As for the breaker, the
  status handler is kept as a flag and the pairs it has been started with.
\<close>

record HealthMonitor =
  metrics :: ConnectionMetrics
  status :: HealthStatus
  checkInterval :: Duration
  unhealthyThreshold :: int
  degradedThreshold :: int
  onStatusChange :: bool
  statusNotified :: "(HealthStatus \<times> HealthStatus) list"
  healthCheckFunc :: "(unit \<Rightarrow> error option) option"
  latencyWindow :: "Duration list"
  maxLatencySamples :: int

definition NewHealthMonitor :: "Duration \<Rightarrow> HealthMonitor" where
  "NewHealthMonitor interval =
     \<lparr>metrics =
        \<lparr>TotalMessages = 0, SentMessages = 0, ReceivedMessages = 0, FailedMessages = 0,
         ReconnectAttempts = 0, SuccessfulReconnects = 0, LastMessageSent = zeroTime,
         LastMessageReceived = zeroTime, LastReconnect = zeroTime,
         ConnectionEstablished = zeroTime, IsConnected = False, IsAuthenticated = False,
         CurrentLatency = 0, AverageLatency = 0, ConsecutiveErrors = 0, LastError = None,
         LastErrorTime = zeroTime\<rparr>,
      status = HealthUnknown, checkInterval = interval, unhealthyThreshold = 5,
      degradedThreshold = 3, onStatusChange = False, statusNotified = [],
      healthCheckFunc = None, latencyWindow = [], maxLatencySamples = 100\<rparr>"

definition SetHealthCheckFunc :: "(unit \<Rightarrow> error option) \<Rightarrow> HealthMonitor \<Rightarrow> HealthMonitor" where
  "SetHealthCheckFunc fn hm = hm\<lparr>healthCheckFunc := Some fn\<rparr>"

definition updateStatus :: "HealthStatus \<Rightarrow> HealthMonitor \<Rightarrow> HealthMonitor" where
  "updateStatus newStatus hm =
     (let oldStatus = status hm in
      if oldStatus = newStatus then hm
      else
        let hm1 = hm\<lparr>status := newStatus\<rparr> in
        if onStatusChange hm1
        then hm1\<lparr>statusNotified := statusNotified hm1 @ [(oldStatus, newStatus)]\<rparr>
        else hm1)"

definition performHealthCheck :: "Time \<Rightarrow> HealthMonitor \<Rightarrow> HealthMonitor" where
  "performHealthCheck now hm =
     (case healthCheckFunc hm of
        None \<Rightarrow> hm
      | Some probe \<Rightarrow>
          (let err = probe ();
               m = metrics hm;
               m1 = (case err of
                       Some e \<Rightarrow>
                         m\<lparr>ConsecutiveErrors := ConsecutiveErrors m + 1,
                           LastError := Some e, LastErrorTime := now\<rparr>
                     | None \<Rightarrow> m\<lparr>ConsecutiveErrors := 0\<rparr>);
               consecutiveErrors = ConsecutiveErrors m1;
               newStatus =
                 (if consecutiveErrors = 0 then HealthHealthy
                  else if consecutiveErrors \<ge> unhealthyThreshold hm then HealthUnhealthy
                  else if consecutiveErrors \<ge> degradedThreshold hm then HealthDegraded
                  else HealthHealthy)
           in updateStatus newStatus (hm\<lparr>metrics := m1\<rparr>)))"

definition RecordMessageSent :: "Time \<Rightarrow> HealthMonitor \<Rightarrow> HealthMonitor" where
  "RecordMessageSent now hm =
     (let m = metrics hm in
      hm\<lparr>metrics := m\<lparr>TotalMessages := TotalMessages m + 1,
                       SentMessages := SentMessages m + 1,
                       LastMessageSent := now\<rparr>\<rparr>)"

definition RecordMessageReceived :: "Time \<Rightarrow> HealthMonitor \<Rightarrow> HealthMonitor" where
  "RecordMessageReceived now hm =
     (let m = metrics hm in
      hm\<lparr>metrics := m\<lparr>TotalMessages := TotalMessages m + 1,
                       ReceivedMessages := ReceivedMessages m + 1,
                       LastMessageReceived := now\<rparr>\<rparr>)"

definition RecordMessageFailed :: "HealthMonitor \<Rightarrow> HealthMonitor" where
  "RecordMessageFailed hm =
     (let m = metrics hm in
      hm\<lparr>metrics := m\<lparr>FailedMessages := FailedMessages m + 1,
                       ConsecutiveErrors := ConsecutiveErrors m + 1\<rparr>\<rparr>)"

definition RecordReconnectAttempt :: "bool \<Rightarrow> Time \<Rightarrow> HealthMonitor \<Rightarrow> HealthMonitor" where
  "RecordReconnectAttempt success now hm =
     (let m = (metrics hm)\<lparr>ReconnectAttempts := ReconnectAttempts (metrics hm) + 1\<rparr> in
      if success
      then hm\<lparr>metrics := m\<lparr>SuccessfulReconnects := SuccessfulReconnects m + 1,
                            LastReconnect := now,
                            ConsecutiveErrors := 0\<rparr>\<rparr>
      else hm\<lparr>metrics := m\<rparr>)"

definition RecordConnectionEstablished :: "Time \<Rightarrow> HealthMonitor \<Rightarrow> HealthMonitor" where
  "RecordConnectionEstablished now hm =
     hm\<lparr>metrics := (metrics hm)\<lparr>ConnectionEstablished := now, IsConnected := True,
                                 ConsecutiveErrors := 0\<rparr>\<rparr>"

definition RecordConnectionLost :: "HealthMonitor \<Rightarrow> HealthMonitor" where
  "RecordConnectionLost hm =
     hm\<lparr>metrics := (metrics hm)\<lparr>IsConnected := False, IsAuthenticated := False\<rparr>\<rparr>"

definition RecordAuthentication :: "bool \<Rightarrow> HealthMonitor \<Rightarrow> HealthMonitor" where
  "RecordAuthentication authenticated hm =
     hm\<lparr>metrics := (metrics hm)\<lparr>IsAuthenticated := authenticated\<rparr>\<rparr>"

text \<open>
  A \<open>time.Duration\<close> is an \<open>int64\<close>: the latency arithmetic wraps around at 64 bits,
  and \<open>/\<close> truncates towards zero (\<open>sdiv\<close>).
\<close>

definition int64 :: "int \<Rightarrow> int" where
  "int64 k = signed_take_bit 63 k"

text \<open>
  \<open>RecordLatency\<close>. The slice expression panics when its low bound lies beyond the
  length, and the division panics on an empty window.
\<close>

datatype panic = SliceBoundsOutOfRange | IntegerDivideByZero

definition RecordLatency :: "Duration \<Rightarrow> HealthMonitor \<Rightarrow> panic + HealthMonitor" where
  "RecordLatency latency hm =
     (let w1 = latencyWindow hm @ [latency];
          n1 = int (length w1)
      in if n1 > maxLatencySamples hm \<and> n1 - maxLatencySamples hm > n1
         then Inl SliceBoundsOutOfRange
         else
           (let w2 = (if n1 > maxLatencySamples hm
                      then drop (nat (n1 - maxLatencySamples hm)) w1
                      else w1);
                total = foldl (\<lambda>total l. int64 (total + l)) 0 w2
            in if length w2 = 0 then Inl IntegerDivideByZero
               else
                 (let avgLatency = int64 (total sdiv int64 (int (length w2))) in
                  Inr (hm\<lparr>latencyWindow := w2,
                         metrics := (metrics hm)\<lparr>CurrentLatency := latency,
                                                  AverageLatency := avgLatency\<rparr>\<rparr>))))"

text \<open>A monitor with two failed messages behind it and no probe.\<close>

definition two_errors :: HealthMonitor where
  "two_errors =
     (NewHealthMonitor 1000)\<lparr>metrics :=
        (metrics (NewHealthMonitor 1000))\<lparr>FailedMessages := 2, ConsecutiveErrors := 2\<rparr>\<rparr>"

definition inInt64 :: "int \<Rightarrow> bool" where
  "inInt64 k = (- (2 ^ 63) \<le> k \<and> k < 2 ^ 63)"

text \<open>A monitor with a capacity of three samples and a full window.\<close>

definition small_window :: HealthMonitor where
  "small_window = (NewHealthMonitor 1000)\<lparr>latencyWindow := [10, 20, 30], maxLatencySamples := 3\<rparr>"

text \<open>
  Successive \<open>RecordLatency\<close> calls, stopping at a panic; and what \<open>GetMetrics\<close>
  then shows of the latency, with the window.
\<close>

fun RecordLatencies :: "Duration list \<Rightarrow> HealthMonitor \<Rightarrow> panic + HealthMonitor" where
  "RecordLatencies [] hm = Inr hm"
| "RecordLatencies (l # ls) hm =
     (case RecordLatency l hm of
        Inl p \<Rightarrow> Inl p
      | Inr hm1 \<Rightarrow> RecordLatencies ls hm1)"

definition latencyReport :: "panic + HealthMonitor \<Rightarrow> panic + (Duration list \<times> Duration \<times> Duration)" where
  "latencyReport r =
     (case r of
        Inl p \<Rightarrow> Inl p
      | Inr hm \<Rightarrow>
          Inr (latencyWindow hm, CurrentLatency (metrics hm), AverageLatency (metrics hm)))"

definition maxInt64 :: int where
  "maxInt64 = 2 ^ 63 - 1"

section \<open>CircuitBreaker: rejected calls\<close>

lemma CanAttempt_False_unchanged:
  "\<not> fst (CanAttempt now cb) \<Longrightarrow> snd (CanAttempt now cb) = cb"
  by (cases "state cb") (simp_all add: CanAttempt_def Let_def split: if_splits)

text \<open>
  C7. Whenever \<open>CanAttempt\<close> answers false, \<open>Call\<close> returns the synthetic error
  "circuit breaker is open", the guarded function is not invoked (the world is as it
  was and no call is made), nothing reaches \<open>RecordResult\<close>, and the breaker, its
  state and every counter included, is exactly as before.
\<close>

theorem Call_rejected_no_effect:
  assumes "\<not> fst (CanAttempt now cb)"
  shows "Call fn now later w cb = (Some ''circuit breaker is open'', w, cb, [])"
proof -
  from assms have same: "snd (CanAttempt now cb) = cb"
    by (rule CanAttempt_False_unchanged)
  obtain b cb1 where ca: "CanAttempt now cb = (b, cb1)"
    by (cases "CanAttempt now cb")
  with assms same have "b = False" and "cb1 = cb"
    by simp_all
  with ca show ?thesis
    by (simp add: Call_def)
qed

theorem Call_rejected_no_effect_witness:
  "\<not> fst (CanAttempt 50 tripped) \<and>
   Call (\<lambda>w. (None, Suc w)) 50 60 (0::nat) tripped
     = (Some ''circuit breaker is open'', 0, tripped, [])"
proof -
  have h: "\<not> fst (CanAttempt 50 tripped)"
    by (simp add: CanAttempt_def tripped_def NewCircuitBreaker_def)
  from h Call_rejected_no_effect [OF h] show ?thesis
    by simp
qed

lemma tripped_simps:
  "state tripped = CircuitOpen" "lastFailTime tripped = 0" "resetTimeout tripped = 100"
  "halfOpenRequests tripped = 1" "failures tripped = 3" "successCount tripped = 0"
  by (simp_all add: tripped_def NewCircuitBreaker_def)

section \<open>CircuitBreaker: the half-open trial\<close>

lemma transition_HalfOpen_fields:
  "state cb \<noteq> CircuitHalfOpen \<Longrightarrow>
   state (transitionTo CircuitHalfOpen cb) = CircuitHalfOpen \<and>
   halfOpenAttempts (transitionTo CircuitHalfOpen cb) = 0 \<and>
   successCount (transitionTo CircuitHalfOpen cb) = 0 \<and>
   failures (transitionTo CircuitHalfOpen cb) = failures cb \<and>
   halfOpenRequests (transitionTo CircuitHalfOpen cb) = halfOpenRequests cb"
  by (simp add: transitionTo_def transitionToLocked_def Let_def)

lemma CanAttempts_HalfOpen:
  "state cb = CircuitHalfOpen \<Longrightarrow>
   CanAttempts ts cb =
     (replicate (min (length ts) (nat (halfOpenRequests cb - halfOpenAttempts cb))) True
        @ replicate (length ts - nat (halfOpenRequests cb - halfOpenAttempts cb)) False,
      cb\<lparr>halfOpenAttempts := halfOpenAttempts cb
            + int (min (length ts) (nat (halfOpenRequests cb - halfOpenAttempts cb)))\<rparr>)"
proof (induction ts arbitrary: cb)
  case Nil
  then show ?case by simp
next
  case (Cons t ts)
  show ?case
  proof (cases "halfOpenAttempts cb < halfOpenRequests cb")
    case True
    let ?cb1 = "cb\<lparr>halfOpenAttempts := halfOpenAttempts cb + 1\<rparr>"
    have step: "CanAttempt t cb = (True, ?cb1)"
      using Cons.prems True by (simp add: CanAttempt_def)
    have st1: "state ?cb1 = CircuitHalfOpen"
      using Cons.prems by simp
    have k: "nat (halfOpenRequests cb - halfOpenAttempts cb)
               = Suc (nat (halfOpenRequests ?cb1 - halfOpenAttempts ?cb1))"
      using True by simp
    show ?thesis
      using Cons.IH [OF st1] step k by (simp add: Suc_diff_le)
  next
    case False
    have step: "CanAttempt t cb = (False, cb)"
      using Cons.prems False by (simp add: CanAttempt_def)
    have k: "nat (halfOpenRequests cb - halfOpenAttempts cb) = 0"
      using False by simp
    show ?thesis
      using Cons.IH [OF Cons.prems] step k by simp
  qed
qed

text \<open>
  C1, as the code has it. For a breaker in \<open>CircuitOpen\<close>: \<open>CanAttempt\<close> answers
  false and changes nothing as long as the time since the last failure is at most
  \<open>resetTimeout\<close>; once strictly more than \<open>resetTimeout\<close> has elapsed, the next
  \<open>CanAttempt\<close> moves the breaker to \<open>CircuitHalfOpen\<close> and answers true. While the
  breaker stays \<open>CircuitHalfOpen\<close> with nothing recorded, the calls that follow
  answer true at first and false from then on, and at most \<open>halfOpenRequests\<close> of
  them answer true: every further call answers false. Whether the transitioning
  call itself takes one of the \<open>halfOpenRequests\<close> slots is not part of the
  statement.
\<close>

theorem Open_CanAttempt_trials:
  assumes "state cb = CircuitOpen"
  shows "(now - lastFailTime cb \<le> resetTimeout cb \<longrightarrow> CanAttempt now cb = (False, cb)) \<and>
         (now - lastFailTime cb > resetTimeout cb \<longrightarrow>
            fst (CanAttempt now cb) \<and>
            state (snd (CanAttempt now cb)) = CircuitHalfOpen \<and>
            (\<exists>j. j \<le> nat (halfOpenRequests cb) \<and>
                 fst (CanAttempts ts (snd (CanAttempt now cb)))
                   = replicate j True @ replicate (length ts - j) False) \<and>
            state (snd (CanAttempts ts (snd (CanAttempt now cb)))) = CircuitHalfOpen)"
proof (intro conjI impI)
  assume "now - lastFailTime cb \<le> resetTimeout cb"
  with assms show "CanAttempt now cb = (False, cb)"
    by (simp add: CanAttempt_def)
next
  assume el: "now - lastFailTime cb > resetTimeout cb"
  let ?h = "transitionTo CircuitHalfOpen cb"
  let ?j = "min (length ts) (nat (halfOpenRequests cb))"
  have ca: "CanAttempt now cb = (True, ?h)"
    using assms el by (simp add: CanAttempt_def)
  have ne: "state cb \<noteq> CircuitHalfOpen"
    using assms by simp
  note f = transition_HalfOpen_fields [OF ne]
  have run: "CanAttempts ts ?h =
     (replicate ?j True @ replicate (length ts - nat (halfOpenRequests cb)) False,
      ?h\<lparr>halfOpenAttempts := int ?j\<rparr>)"
    using CanAttempts_HalfOpen [of ?h ts] f by simp
  have len: "length ts - nat (halfOpenRequests cb) = length ts - ?j"
    by simp
  show "fst (CanAttempt now cb)" using ca by simp
  show "state (snd (CanAttempt now cb)) = CircuitHalfOpen" using ca f by simp
  show "\<exists>j. j \<le> nat (halfOpenRequests cb) \<and>
            fst (CanAttempts ts (snd (CanAttempt now cb)))
              = replicate j True @ replicate (length ts - j) False"
  proof (intro exI conjI)
    show "?j \<le> nat (halfOpenRequests cb)" by simp
    show "fst (CanAttempts ts (snd (CanAttempt now cb)))
            = replicate ?j True @ replicate (length ts - ?j) False"
      using ca run len by simp
  qed
  show "state (snd (CanAttempts ts (snd (CanAttempt now cb)))) = CircuitHalfOpen"
    using ca run f by simp
qed

theorem Open_CanAttempt_trials_witness:
  "state tripped = CircuitOpen \<and>
   CanAttempt 100 tripped = (False, tripped) \<and>
   fst (CanAttempt 150 tripped) \<and>
   state (snd (CanAttempt 150 tripped)) = CircuitHalfOpen \<and>
   (\<exists>j. j \<le> 1 \<and>
        fst (CanAttempts [151, 152, 153] (snd (CanAttempt 150 tripped)))
          = replicate j True @ replicate (3 - j) False)"
proof -
  have h: "state tripped = CircuitOpen" by (simp add: tripped_simps)
  from Open_CanAttempt_trials [OF h, of 100 "[]"]
  have a: "CanAttempt 100 tripped = (False, tripped)"
    by (simp add: tripped_simps)
  have el: "150 - lastFailTime tripped > resetTimeout tripped"
    by (simp add: tripped_simps)
  have n: "nat (halfOpenRequests tripped) = 1" "length [151, 152, 153 :: int] = 3"
    by (simp_all add: tripped_simps)
  from Open_CanAttempt_trials [OF h, of 150 "[151, 152, 153]"] el
  have "fst (CanAttempt 150 tripped) \<and>
        state (snd (CanAttempt 150 tripped)) = CircuitHalfOpen \<and>
        (\<exists>j. j \<le> nat (halfOpenRequests tripped) \<and>
             fst (CanAttempts [151, 152, 153] (snd (CanAttempt 150 tripped)))
               = replicate j True @ replicate (length [151, 152, 153 :: int] - j) False)"
    by blast
  then have b: "fst (CanAttempt 150 tripped)"
    "state (snd (CanAttempt 150 tripped)) = CircuitHalfOpen"
    "\<exists>j. j \<le> 1 \<and>
        fst (CanAttempts [151, 152, 153] (snd (CanAttempt 150 tripped)))
          = replicate j True @ replicate (3 - j) False"
    unfolding n by blast+
  from h a b show ?thesis by blast
qed

text \<open>
  The claim as stated fails at the boundary: on the breaker \<open>tripped\<close>
  (\<open>resetTimeout = 100\<close>, last failure at instant 0), at instant 100 at least
  \<open>resetTimeout\<close> has elapsed, yet \<open>CanAttempt\<close> answers false and the breaker stays
  \<open>CircuitOpen\<close>.
\<close>

theorem Open_CanAttempt_counterexample:
  "state tripped = CircuitOpen \<and> resetTimeout tripped = 100 \<and>
   100 - lastFailTime tripped \<ge> resetTimeout tripped \<and>
   \<not> fst (CanAttempt 100 tripped) \<and>
   state (snd (CanAttempt 100 tripped)) = CircuitOpen"
  by (simp add: tripped_def NewCircuitBreaker_def CanAttempt_def)

text \<open>
  The transitioning call is not counted: the Open branch of \<open>CanAttempt\<close> answers
  true after \<open>transitionToLocked\<close> has set \<open>halfOpenAttempts\<close> to 0, so that with
  the constructor's single slot ("Allow one request in half-open state") two calls
  answer true before any result is recorded.
\<close>

lemma half_open_extra_slot:
  "halfOpenRequests tripped = 1 \<and>
   fst (CanAttempt 101 tripped) \<and>
   fst (CanAttempts [102, 103] (snd (CanAttempt 101 tripped))) = [True, False]"
  by (simp add: tripped_def NewCircuitBreaker_def CanAttempt_def transitionTo_def
        transitionToLocked_def Let_def)

section \<open>CircuitBreaker: counters across state changes\<close>

lemma transitionToLocked_state:
  "state (transitionToLocked s cb) = s"
  by (simp add: transitionToLocked_def Let_def)

lemma transitionToLocked_failures:
  "failures (transitionToLocked s cb) = failures cb"
  by (simp add: transitionToLocked_def Let_def)

lemma transitionToLocked_successCount:
  "successCount (transitionToLocked s cb)
     = (if s = CircuitHalfOpen \<and> state cb \<noteq> s then 0 else successCount cb)"
  by (simp add: transitionToLocked_def Let_def)

lemma transitionToLocked_halfOpenAttempts:
  "halfOpenAttempts (transitionToLocked s cb)
     = (if s = CircuitHalfOpen \<and> state cb \<noteq> s then 0 else halfOpenAttempts cb)"
  by (simp add: transitionToLocked_def Let_def)

lemma transitionToLocked_halfOpenRequests:
  "halfOpenRequests (transitionToLocked s cb) = halfOpenRequests cb"
  by (simp add: transitionToLocked_def Let_def)

lemmas transitionToLocked_fields =
  transitionToLocked_state transitionToLocked_failures
  transitionToLocked_successCount transitionToLocked_halfOpenAttempts
  transitionToLocked_halfOpenRequests

text \<open>
  On a breaker built by \<open>NewCircuitBreaker\<close> there is one half-open slot, and the
  success counter is 0 between any two calls: the one success that a half-open
  breaker counts closes it and resets the counter in the same call.
\<close>

lemma cb_step_keeps_single_slot:
  assumes "halfOpenRequests cb = 1" and "successCount cb = 0"
  shows "halfOpenRequests (cb_step op cb) = 1 \<and> successCount (cb_step op cb) = 0"
proof (cases op)
  case (OpCanAttempt now)
  with assms show ?thesis
    by (cases "state cb")
       (simp_all add: CanAttempt_def transitionTo_def transitionToLocked_fields Let_def)
next
  case (OpRecordResult err now)
  show ?thesis
  proof (cases err)
    case None
    with assms OpRecordResult show ?thesis
      by (cases "state cb")
         (simp_all add: RecordResult_def recordSuccess_def transitionToLocked_fields Let_def)
  next
    case (Some e)
    with assms OpRecordResult show ?thesis
      by (cases "state cb")
         (simp_all add: RecordResult_def recordFailure_def transitionToLocked_fields Let_def)
  qed
next
  case OpReset
  with assms show ?thesis by (simp add: Reset_def)
next
  case (OpSetStateChangeHandler handler)
  with assms show ?thesis by (simp add: SetStateChangeHandler_def)
qed

lemma run_ops_single_slot:
  "halfOpenRequests cb = 1 \<Longrightarrow> successCount cb = 0 \<Longrightarrow>
   halfOpenRequests (run_ops ops cb) = 1 \<and> successCount (run_ops ops cb) = 0"
proof (induction ops arbitrary: cb)
  case Nil
  then show ?case by simp
next
  case (Cons op ops)
  from cb_step_keeps_single_slot [OF Cons.prems, of op]
  show ?case by (simp add: Cons.IH)
qed

lemma reachable_single_slot:
  "halfOpenRequests (run_ops ops (NewCircuitBreaker mf rt)) = 1 \<and>
   successCount (run_ops ops (NewCircuitBreaker mf rt)) = 0"
  by (rule run_ops_single_slot) (simp_all add: NewCircuitBreaker_def)

text \<open>The failure counter and the trial counter across a state change, on any breaker.\<close>

lemma state_change_failures:
  assumes "state (cb_step op cb) \<noteq> state cb"
  shows "(state (cb_step op cb) = CircuitHalfOpen \<longrightarrow>
            state cb = CircuitOpen \<and>
            halfOpenAttempts (cb_step op cb) = 0 \<and>
            failures (cb_step op cb) = failures cb) \<and>
         (state (cb_step op cb) = CircuitOpen \<longrightarrow>
            failures (cb_step op cb) = failures cb + 1) \<and>
         (state (cb_step op cb) = CircuitClosed \<longrightarrow>
            failures (cb_step op cb) = 0 \<and>
            halfOpenAttempts (cb_step op cb) = 0)"
proof (cases op)
  case (OpCanAttempt now)
  with assms show ?thesis
    by (cases "state cb")
       (auto simp: CanAttempt_def transitionTo_def transitionToLocked_fields Let_def
             split: if_splits)
next
  case (OpRecordResult err now)
  show ?thesis
  proof (cases err)
    case None
    with assms OpRecordResult show ?thesis
      by (cases "state cb")
         (auto simp: RecordResult_def recordSuccess_def transitionToLocked_fields Let_def
               split: if_splits)
  next
    case (Some e)
    with assms OpRecordResult show ?thesis
      by (cases "state cb")
         (auto simp: RecordResult_def recordFailure_def transitionToLocked_fields Let_def
               split: if_splits)
  qed
next
  case OpReset
  with assms show ?thesis
    by (simp add: Reset_def)
next
  case (OpSetStateChangeHandler handler)
  with assms show ?thesis
    by (simp add: SetStateChangeHandler_def)
qed

text \<open>
  C2, as the code has it. Take a breaker built by \<open>NewCircuitBreaker\<close> and driven
  through its methods, and a call that changes its state. The success counter is 0
  after the state change, whatever the transition. The failure counter is reset only
  on entering \<open>CircuitClosed\<close>, where it is 0; on entering \<open>CircuitOpen\<close> it has been
  incremented by the failure that opens the breaker, and on entering
  \<open>CircuitHalfOpen\<close> (always from \<open>CircuitOpen\<close>) it is kept. The trial counter is 0
  on entering \<open>CircuitHalfOpen\<close> and \<open>CircuitClosed\<close>.
\<close>

theorem state_change_counters:
  assumes "cb = run_ops ops (NewCircuitBreaker mf rt)"
    and "state (cb_step op cb) \<noteq> state cb"
  shows "successCount (cb_step op cb) = 0 \<and>
         (state (cb_step op cb) = CircuitHalfOpen \<longrightarrow>
            state cb = CircuitOpen \<and>
            halfOpenAttempts (cb_step op cb) = 0 \<and>
            failures (cb_step op cb) = failures cb) \<and>
         (state (cb_step op cb) = CircuitOpen \<longrightarrow>
            failures (cb_step op cb) = failures cb + 1) \<and>
         (state (cb_step op cb) = CircuitClosed \<longrightarrow>
            failures (cb_step op cb) = 0 \<and>
            halfOpenAttempts (cb_step op cb) = 0)"
proof -
  have "halfOpenRequests cb = 1" and "successCount cb = 0"
    unfolding assms(1) by (simp_all add: reachable_single_slot)
  then have "successCount (cb_step op cb) = 0"
    using cb_step_keeps_single_slot by blast
  with state_change_failures [OF assms(2)] show ?thesis
    by simp
qed

text \<open>The breaker \<open>tripped\<close> is three failures away from a new one.\<close>

lemma tripped_reachable:
  "tripped = run_ops [OpRecordResult (Some ''timeout'') (- 2),
                      OpRecordResult (Some ''timeout'') (- 1),
                      OpRecordResult (Some ''timeout'') 0] (NewCircuitBreaker 3 100)"
  by (simp add: tripped_def NewCircuitBreaker_def RecordResult_def recordFailure_def
        transitionToLocked_def Let_def)

theorem state_change_counters_witness:
  "tripped = run_ops [OpRecordResult (Some ''timeout'') (- 2),
                      OpRecordResult (Some ''timeout'') (- 1),
                      OpRecordResult (Some ''timeout'') 0] (NewCircuitBreaker 3 100) \<and>
   state (cb_step (OpCanAttempt 150) tripped) \<noteq> state tripped \<and>
   state (cb_step (OpCanAttempt 150) tripped) = CircuitHalfOpen \<and>
   successCount (cb_step (OpCanAttempt 150) tripped) = 0 \<and>
   halfOpenAttempts (cb_step (OpCanAttempt 150) tripped) = 0 \<and>
   failures (cb_step (OpCanAttempt 150) tripped) = 3"
proof -
  have st: "state (cb_step (OpCanAttempt 150) tripped) = CircuitHalfOpen"
    by (simp add: CanAttempt_def tripped_simps transitionTo_def transitionToLocked_state)
  then have h: "state (cb_step (OpCanAttempt 150) tripped) \<noteq> state tripped"
    by (simp add: tripped_simps)
  from state_change_counters [OF tripped_reachable h] st
  have "successCount (cb_step (OpCanAttempt 150) tripped) = 0"
    "halfOpenAttempts (cb_step (OpCanAttempt 150) tripped) = 0"
    "failures (cb_step (OpCanAttempt 150) tripped) = 3"
    by (simp_all add: tripped_simps)
  with tripped_reachable st h show ?thesis
    by blast
qed

text \<open>
  The claim as stated fails for the failure counter: with \<open>maxFailures = 1\<close> one
  failure takes a new breaker to \<open>CircuitOpen\<close> with the failure counter at 1, and
  the move of \<open>tripped\<close> from \<open>CircuitOpen\<close> to \<open>CircuitHalfOpen\<close> keeps the failure
  counter at 3.
\<close>

theorem state_change_counters_counterexample:
  "state (NewCircuitBreaker 1 100) = CircuitClosed \<and>
   state (cb_step (OpRecordResult (Some ''timeout'') 7) (NewCircuitBreaker 1 100)) = CircuitOpen \<and>
   failures (cb_step (OpRecordResult (Some ''timeout'') 7) (NewCircuitBreaker 1 100)) = 1 \<and>
   state tripped = CircuitOpen \<and>
   state (cb_step (OpCanAttempt 150) tripped) = CircuitHalfOpen \<and>
   failures (cb_step (OpCanAttempt 150) tripped) = 3"
  by (simp add: NewCircuitBreaker_def RecordResult_def recordFailure_def CanAttempt_def
        tripped_def transitionTo_def transitionToLocked_def Let_def)

section \<open>CircuitBreaker: failures recorded while open\<close>

text \<open>
  C9. A failure recorded while the breaker is \<open>CircuitOpen\<close> increments the failure
  counter, sets the last-failure instant to the current instant and changes nothing
  else, the state included. From then on \<open>CanAttempt\<close> answers true exactly when more
  than \<open>resetTimeout\<close> has elapsed since that new instant: the dwell starts again, and
  (the clock not running backwards) every instant at which the breaker would now leave
  \<open>CircuitOpen\<close> is one at which it would have left it before.
\<close>

theorem Open_failure_restarts_dwell:
  assumes "state cb = CircuitOpen"
  shows "RecordResult (Some e) now cb = cb\<lparr>failures := failures cb + 1, lastFailTime := now\<rparr> \<and>
         state (RecordResult (Some e) now cb) = CircuitOpen \<and>
         (\<forall>t. fst (CanAttempt t (RecordResult (Some e) now cb)) = (t - now > resetTimeout cb)) \<and>
         (lastFailTime cb \<le> now \<longrightarrow>
            (\<forall>t. fst (CanAttempt t (RecordResult (Some e) now cb)) \<longrightarrow> fst (CanAttempt t cb)))"
proof -
  have rr: "RecordResult (Some e) now cb = cb\<lparr>failures := failures cb + 1, lastFailTime := now\<rparr>"
    using assms by (simp add: RecordResult_def recordFailure_def)
  have ca: "fst (CanAttempt t (RecordResult (Some e) now cb)) = (t - now > resetTimeout cb)" for t
    using assms by (simp add: rr CanAttempt_def)
  have ca0: "fst (CanAttempt t cb) = (t - lastFailTime cb > resetTimeout cb)" for t
    using assms by (simp add: CanAttempt_def)
  have later: "fst (CanAttempt t (RecordResult (Some e) now cb)) \<longrightarrow> fst (CanAttempt t cb)"
    if "lastFailTime cb \<le> now" for t
    using that by (simp only: ca ca0) arith
  from rr ca later assms show ?thesis
    by simp
qed

theorem Open_failure_restarts_dwell_witness:
  "state tripped = CircuitOpen \<and>
   failures (RecordResult (Some ''timeout'') 80 tripped) = 4 \<and>
   lastFailTime (RecordResult (Some ''timeout'') 80 tripped) = 80 \<and>
   state (RecordResult (Some ''timeout'') 80 tripped) = CircuitOpen \<and>
   fst (CanAttempt 150 tripped) \<and>
   \<not> fst (CanAttempt 150 (RecordResult (Some ''timeout'') 80 tripped)) \<and>
   fst (CanAttempt 181 (RecordResult (Some ''timeout'') 80 tripped))"
proof -
  have h: "state tripped = CircuitOpen" by (simp add: tripped_simps)
  have a: "fst (CanAttempt 150 tripped)"
    by (simp add: CanAttempt_def tripped_simps)
  note T = Open_failure_restarts_dwell [OF h, of "''timeout''" 80]
  from T have eq: "RecordResult (Some ''timeout'') 80 tripped
                     = tripped\<lparr>failures := failures tripped + 1, lastFailTime := 80\<rparr>"
    by (rule conjunct1)
  from T have "\<forall>t. fst (CanAttempt t (RecordResult (Some ''timeout'') 80 tripped))
                 = (t - 80 > resetTimeout tripped)"
    by blast
  then have b: "\<not> fst (CanAttempt 150 (RecordResult (Some ''timeout'') 80 tripped))"
    and c: "fst (CanAttempt 181 (RecordResult (Some ''timeout'') 80 tripped))"
    by (simp_all add: tripped_simps)
  have d: "failures (RecordResult (Some ''timeout'') 80 tripped) = 4"
    "lastFailTime (RecordResult (Some ''timeout'') 80 tripped) = 80"
    "state (RecordResult (Some ''timeout'') 80 tripped) = CircuitOpen"
    by (simp_all add: eq tripped_simps)
  from h a b c d show ?thesis
    by blast
qed

section \<open>float64: exact products\<close>

text \<open>
  A whole number below \<open>2 ^ 53\<close> in magnitude has at most 53 binary digits and
  is not changed by the rounding; so the product of a duration and a whole-number
  factor is exact as long as it stays below \<open>2 ^ 53\<close> in magnitude.
\<close>

lemma bitlen_le: "n < 2 ^ j \<Longrightarrow> bitlen n \<le> j"
proof (induction j arbitrary: n)
  case 0
  then have "n = 0" by simp
  then show ?case by (simp add: bitlen.simps)
next
  case (Suc j)
  show ?case
  proof (cases "n = 0")
    case True
    then show ?thesis by (simp add: bitlen.simps)
  next
    case False
    from Suc.prems have "n div 2 < 2 ^ j" by simp
    then have "bitlen (n div 2) \<le> j" by (rule Suc.IH)
    with False show ?thesis by (subst bitlen.simps) simp
  qed
qed

lemma roundHalfEven_of_int: "roundHalfEven (of_int z) = z"
  by (simp add: roundHalfEven_def)

lemma round53_of_int:
  assumes "\<bar>x\<bar> < 2 ^ 53"
  shows "round53 (of_int x) = of_int x"
proof (cases "x = 0")
  case True
  then show ?thesis by (simp add: round53_def)
next
  case False
  then have one: "(1::rat) \<le> \<bar>of_int x\<bar>"
    by (metis abs_ge_zero of_int_abs of_int_1_le_iff zero_less_abs_iff int_one_le_iff_zero_less)
  have "nat \<bar>x\<bar> < 2 ^ 53"
    using assms by (simp add: nat_less_iff)
  then have bl: "bitlen (nat \<bar>x\<bar>) \<le> 53"
    by (rule bitlen_le)
  define s where "s = 53 - bitlen (nat \<bar>x\<bar>)"
  have e: "ilog2 \<bar>of_int x\<bar> - 52 = - int s"
    using one bl by (simp add: ilog2_def s_def flip: of_int_abs)
  have u: "pow2 (ilog2 \<bar>of_int x\<bar> - 52) = 1 / 2 ^ s"
    by (simp add: e pow2_def)
  have q: "(of_int x :: rat) / (1 / 2 ^ s) = of_int (x * 2 ^ s)"
    by simp
  show ?thesis
    using False
    by (simp only: round53_def Let_def u q roundHalfEven_of_int) simp
qed

lemma truncInt64_of_int:
  "- (2 ^ 63) \<le> v \<Longrightarrow> v < 2 ^ 63 \<Longrightarrow> truncInt64 (of_int v) = v"
  by (simp add: truncInt64_def Let_def flip: of_int_minus)

lemma durationMul_zero: "durationMul d (Finite 0) = 0"
  by (simp add: durationMul_def round53_def truncInt64_def)

lemma durationMul_whole:
  assumes "0 \<le> k" and "- (2 ^ 53) < d * k" and "d * k < 2 ^ 53"
  shows "durationMul d (Finite (of_int k)) = d * k"
proof (cases "k = 0")
  case True
  then show ?thesis by (simp add: durationMul_zero)
next
  case False
  with assms(1) have k: "1 \<le> k" by simp
  have dk: "\<bar>d * k\<bar> < 2 ^ 53"
    using assms(2,3) by simp
  have "\<bar>d\<bar> * 1 \<le> \<bar>d\<bar> * k"
    using k by (intro mult_left_mono) simp_all
  then have "\<bar>d\<bar> \<le> \<bar>d * k\<bar>"
    using k by (simp add: abs_mult)
  with dk have d: "\<bar>d\<bar> < 2 ^ 53" by simp
  have "durationMul d (Finite (of_int k)) = truncInt64 (round53 (of_int d * of_int k))"
    by (simp add: durationMul_def round53_of_int [OF d])
  also have "\<dots> = truncInt64 (round53 (of_int (d * k)))"
    by simp
  also have "\<dots> = truncInt64 (of_int (d * k))"
    by (simp only: round53_of_int [OF dk])
  also have "\<dots> = d * k"
    using assms(2,3) by (intro truncInt64_of_int) simp_all
  finally show ?thesis .
qed

text \<open>Evaluation of the product on numerals.\<close>

lemma floor_rat_numeral:
  "\<lfloor>(numeral a :: rat) / numeral b\<rfloor> = numeral a div numeral b"
  using floor_divide_of_int_eq [of "numeral a" "numeral b", where ?'a = rat] by simp

lemma floor_rat_neg_numeral:
  "\<lfloor>- ((numeral a :: rat) / numeral b)\<rfloor> = - numeral a div numeral b"
  using floor_divide_of_int_eq [of "- numeral a" "numeral b", where ?'a = rat] by simp

lemma floor_rat_one_numeral:
  "\<lfloor>(1 :: rat) / numeral b\<rfloor> = 1 div numeral b"
  using floor_divide_of_int_eq [of 1 "numeral b", where ?'a = rat] by simp

lemmas float_eval =
  durationMul_def round53_def ilog2_def pow2_def roundHalfEven_def truncInt64_def
  minInt64_def bitlen.simps Let_def ceiling_def
  floor_rat_numeral floor_rat_neg_numeral floor_rat_one_numeral

text \<open>The factors used below are \<open>float64\<close> values.\<close>

lemma factors_are_float64:
  "round53 2 = 2 \<and> round53 1 = 1 \<and> round53 (3 / 2) = 3 / 2 \<and> round53 (- 20) = - 20"
  by (simp add: float_eval)

text \<open>
  A product beyond \<open>int64\<close>: \<open>2 ^ 62\<close> nanoseconds, doubled.
\<close>

lemma durationMul_out_of_range: "durationMul (2 ^ 62) (Finite 2) = minInt64"
  by (simp add: float_eval)

section \<open>GoroutineSupervisor: a worker that always fails\<close>

lemma worker0_simps:
  "restartCount worker0 = 0" "MaxRestarts (policy worker0) = 2"
  "RestartDelay (policy worker0) = 1000000000" "MaxBackoffDelay (policy worker0) = 30000000000"
  "BackoffFactor (policy worker0) = Finite 2" "running worker0 = False"
  "OnFailure (policy worker0) = False"
  by (simp_all add: worker0_def Register_worker_def DefaultRestartPolicy_def)

lemma failedCounts_append: "failedCounts (xs @ ys) = failedCounts xs @ failedCounts ys"
  by (induction xs rule: failedCounts.induct) simp_all

lemma runLoop_failing_step:
  assumes "never_stopped env" and "work env k = Some e"
  shows "runLoop env k sg tr =
     (let sg1 = sg\<lparr>lastError := Some e, restartCount := restartCount sg + 1\<rparr>;
          tr1 = tr @ [Invoked, Failed e (restartCount sg1)]
                  @ (if OnFailure (policy sg1)
                     then [OnFailureCalled e (restartCount sg1)] else [])
      in if restartCount sg1 > MaxRestarts (policy sg1) then (sg1, tr1)
         else
           (let delay = calculateBackoff sg1;
                sg2 = sg1\<lparr>lastRestart := clock env k + delay\<rparr>
            in runLoop env (Suc k) sg2 (tr1 @ [Slept delay])))"
  using assms by (subst runLoop.simps) (simp add: never_stopped_def Let_def)

lemma runLoop_always_failing:
  assumes ns: "never_stopped env" and ae: "always_errors env"
  shows "n = nat (MaxRestarts (policy sg) - restartCount sg) \<Longrightarrow>
         restartCount sg \<le> MaxRestarts (policy sg) \<Longrightarrow>
         (case runLoop env k sg tr of
            (sg', tr') \<Rightarrow>
              restartCount sg' = MaxRestarts (policy sg) + 1 \<and>
              policy sg' = policy sg \<and>
              invocations tr' = invocations tr + n + 1 \<and>
              restarts tr' = restarts tr + n \<and>
              (\<exists>rcs. failedCounts tr' = failedCounts tr @ rcs \<and>
                     (\<forall>rc \<in> set rcs. restartCount sg < rc \<and> rc \<le> MaxRestarts (policy sg) + 1)) \<and>
              tr' \<noteq> [] \<and> \<not> isSlept (last tr'))"
proof (induction n arbitrary: sg k tr)
  case 0
  from ae obtain e where w: "work env k = Some e"
    by (auto simp: always_errors_def)
  from 0 have eq: "restartCount sg = MaxRestarts (policy sg)"
    by simp
  show ?case
    by (simp add: runLoop_failing_step [OF ns w] Let_def eq invocations_def restarts_def
          failedCounts_append)
next
  case (Suc n)
  from ae obtain e where w: "work env k = Some e"
    by (auto simp: always_errors_def)
  from Suc.prems have lt: "restartCount sg < MaxRestarts (policy sg)"
    by simp
  let ?sg1 = "sg\<lparr>lastError := Some e, restartCount := restartCount sg + 1\<rparr>"
  let ?tr1 = "tr @ [Invoked, Failed e (restartCount ?sg1)]
                 @ (if OnFailure (policy ?sg1)
                    then [OnFailureCalled e (restartCount ?sg1)] else [])"
  let ?delay = "calculateBackoff ?sg1"
  let ?sg2 = "?sg1\<lparr>lastRestart := clock env k + ?delay\<rparr>"
  let ?tr2 = "?tr1 @ [Slept ?delay]"
  have step: "runLoop env k sg tr = runLoop env (Suc k) ?sg2 ?tr2"
    using lt by (simp add: runLoop_failing_step [OF ns w] Let_def)
  have n: "n = nat (MaxRestarts (policy ?sg2) - restartCount ?sg2)"
    using Suc.prems by simp
  have le: "restartCount ?sg2 \<le> MaxRestarts (policy ?sg2)"
    using lt by simp
  obtain sg' tr' where r: "runLoop env (Suc k) ?sg2 ?tr2 = (sg', tr')"
    by (cases "runLoop env (Suc k) ?sg2 ?tr2")
  from Suc.IH [OF n le, where k = "Suc k" and tr = ?tr2] r
  have ih: "restartCount sg' = MaxRestarts (policy sg) + 1"
    "policy sg' = policy sg"
    "invocations tr' = invocations ?tr2 + n + 1"
    "restarts tr' = restarts ?tr2 + n"
    "\<exists>rcs. failedCounts tr' = failedCounts ?tr2 @ rcs \<and>
           (\<forall>rc \<in> set rcs. restartCount sg + 1 < rc \<and> rc \<le> MaxRestarts (policy sg) + 1)"
    "tr' \<noteq> []" "\<not> isSlept (last tr')"
    by simp_all
  from ih(5) obtain rcs where rcs: "failedCounts tr' = failedCounts ?tr2 @ rcs"
    "\<forall>rc \<in> set rcs. restartCount sg + 1 < rc \<and> rc \<le> MaxRestarts (policy sg) + 1"
    by blast
  have f2: "failedCounts ?tr2 = failedCounts tr @ [restartCount sg + 1]"
    by (simp add: failedCounts_append)
  have inv2: "invocations ?tr2 = invocations tr + 1"
    by (simp add: invocations_def)
  have res2: "restarts ?tr2 = restarts tr + 1"
    by (simp add: restarts_def)
  have fc: "\<exists>rcs'. failedCounts tr' = failedCounts tr @ rcs' \<and>
             (\<forall>rc \<in> set rcs'. restartCount sg < rc \<and> rc \<le> MaxRestarts (policy sg) + 1)"
  proof (intro exI conjI)
    show "failedCounts tr' = failedCounts tr @ ((restartCount sg + 1) # rcs)"
      using rcs(1) f2 by simp
    show "\<forall>rc \<in> set ((restartCount sg + 1) # rcs).
            restartCount sg < rc \<and> rc \<le> MaxRestarts (policy sg) + 1"
      using rcs(2) lt by auto
  qed
  show ?case
    unfolding step r
    using ih(1,2,3,4,6,7) fc inv2 res2 by simp
qed

text \<open>
  C3, as the code has it. Take a worker with a restart budget \<open>MaxRestarts \<ge> 0\<close>
  that starts with restart count 0, as \<open>Register\<close> and \<open>RestartGoroutine\<close> leave
  it, under a supervisor that has been started and is not stopped, with no
  cancellation, and whose work function returns an error on every invocation. Then
  \<open>runGoroutine\<close> returns, having restarted the worker exactly \<open>MaxRestarts\<close> times
  (\<open>MaxRestarts + 1\<close> invocations in all); the run ends on a failure, with no wait
  and no invocation after it, and leaves \<open>running\<close> cleared; the restart count ends
  at \<open>MaxRestarts + 1\<close> and no value it takes on the way exceeds \<open>MaxRestarts + 1\<close>.
\<close>

theorem always_failing_worker:
  assumes "never_stopped env" and "always_errors env"
    and "restartCount sg = 0" and "0 \<le> MaxRestarts (policy sg)"
  shows "restarts (snd (runGoroutine env sg)) = nat (MaxRestarts (policy sg)) \<and>
         invocations (snd (runGoroutine env sg)) = nat (MaxRestarts (policy sg)) + 1 \<and>
         \<not> isSlept (last (snd (runGoroutine env sg))) \<and>
         \<not> running (fst (runGoroutine env sg)) \<and>
         restartCount (fst (runGoroutine env sg)) = MaxRestarts (policy sg) + 1 \<and>
         (\<forall>rc \<in> set (failedCounts (snd (runGoroutine env sg))).
             rc \<le> MaxRestarts (policy sg) + 1)"
proof -
  obtain sg' tr' where r: "runLoop env 0 sg [] = (sg', tr')"
    by (cases "runLoop env 0 sg []")
  have n: "nat (MaxRestarts (policy sg)) = nat (MaxRestarts (policy sg) - restartCount sg)"
    using assms(3) by simp
  have le: "restartCount sg \<le> MaxRestarts (policy sg)"
    using assms(3,4) by simp
  from runLoop_always_failing [OF assms(1,2) n le, where k = 0 and tr = "[]"] r
  have f: "restartCount sg' = MaxRestarts (policy sg) + 1"
    "invocations tr' = nat (MaxRestarts (policy sg)) + 1"
    "restarts tr' = nat (MaxRestarts (policy sg))"
    "\<exists>rcs. failedCounts tr' = rcs \<and>
           (\<forall>rc \<in> set rcs. restartCount sg < rc \<and> rc \<le> MaxRestarts (policy sg) + 1)"
    "\<not> isSlept (last tr')"
    by (simp_all add: invocations_def restarts_def)
  have g: "runGoroutine env sg = (sg'\<lparr>running := False\<rparr>, tr')"
    by (simp add: runGoroutine_def r)
  from f show ?thesis
    unfolding g by simp
qed

lemma always_failing_hyps: "never_stopped always_failing" "always_errors always_failing"
  by (simp_all add: never_stopped_def always_errors_def always_failing_def)

theorem always_failing_worker_witness:
  "never_stopped always_failing \<and> always_errors always_failing \<and>
   restartCount worker0 = 0 \<and> 0 \<le> MaxRestarts (policy worker0) \<and>
   restarts (snd (runGoroutine always_failing worker0)) = 2 \<and>
   invocations (snd (runGoroutine always_failing worker0)) = 3 \<and>
   \<not> running (fst (runGoroutine always_failing worker0)) \<and>
   restartCount (fst (runGoroutine always_failing worker0)) = 3"
proof -
  have a: "restartCount worker0 = 0" and b: "0 \<le> MaxRestarts (policy worker0)"
    by (simp_all add: worker0_simps)
  from always_failing_worker [OF always_failing_hyps a b] always_failing_hyps a b
  show ?thesis
    by (simp add: worker0_simps)
qed

text \<open>
  The claim as stated fails in two ways. With \<open>MaxRestarts = -1\<close> the first
  failure already exceeds the budget: the worker is invoked once and not restarted,
  and its restart count is 1, above \<open>MaxRestarts + 1 = 0\<close>. And under a supervisor
  that has not been started, the loop returns before the first invocation: the
  worker with a budget of two restarts is never invoked and never restarted, though
  its context is not cancelled.
\<close>

theorem always_failing_worker_counterexample:
  "always_errors always_failing \<and> never_stopped always_failing \<and>
   MaxRestarts (policy negative_budget) = - 1 \<and>
   restarts (snd (runGoroutine always_failing negative_budget)) = 0 \<and>
   invocations (snd (runGoroutine always_failing negative_budget)) = 1 \<and>
   restartCount (fst (runGoroutine always_failing negative_budget)) = 1 \<and>
   restartCount (fst (runGoroutine always_failing negative_budget))
     > MaxRestarts (policy negative_budget) + 1 \<and>
   always_errors not_started \<and>
   MaxRestarts (policy worker0) = 2 \<and>
   invocations (snd (runGoroutine not_started worker0)) = 0 \<and>
   restarts (snd (runGoroutine not_started worker0)) = 0"
  by (simp add: never_stopped_def always_errors_def not_started_def always_failing_def
        negative_budget_def worker0_def Register_worker_def DefaultRestartPolicy_def
        runGoroutine_def runLoop.simps restarts_def invocations_def Let_def)

text \<open>
  With a negative \<open>MaxRestarts\<close> the first failure already exceeds the budget: the
  worker is invoked once and never restarted, and its restart count ends at 1.
\<close>

lemma negative_budget_no_restart:
  assumes "never_stopped env" and "always_errors env"
    and "restartCount sg = 0" and "MaxRestarts (policy sg) < 0"
  shows "restarts (snd (runGoroutine env sg)) = 0 \<and>
         invocations (snd (runGoroutine env sg)) = 1 \<and>
         restartCount (fst (runGoroutine env sg)) = 1"
proof -
  from assms(2) obtain e where w: "work env 0 = Some e"
    by (auto simp: always_errors_def)
  show ?thesis
    using assms(3,4)
    by (simp add: runGoroutine_def runLoop_failing_step [OF assms(1) w] Let_def
          restarts_def invocations_def)
qed

text \<open>The run of the worker \<open>worker0\<close>, event by event.\<close>

lemma worker0_trace:
  "snd (runGoroutine always_failing worker0) =
     [Invoked, Failed ''boom'' 1, Slept 1000000000,
      Invoked, Failed ''boom'' 2, Slept 2000000000,
      Invoked, Failed ''boom'' 3]"
  by (simp add: runGoroutine_def runLoop.simps backoffLoop.simps calculateBackoff_def
        always_failing_def worker0_simps float_eval split: prod.splits)

section \<open>GoroutineSupervisor: the backoff delay\<close>

lemma of_int_min_rat: "(of_int (min a b) :: rat) = min (of_int a) (of_int b)"
  by (simp add: min_def)

lemma backoffLoop_exact:
  assumes k: "0 \<le> k"
    and ex: "\<forall>d. - (2 ^ 53) < d * k \<and> d * k < 2 ^ 53 \<longrightarrow> scale d = d * k"
    and cap: "k * maxd < 2 ^ 53"
  shows "m = nat (count - i) \<Longrightarrow> d0 \<le> maxd \<Longrightarrow> - (2 ^ 53) < d0 * k ^ m \<Longrightarrow>
         backoffLoop scale maxd count i d0 = min (d0 * k ^ m) maxd"
proof (induction m arbitrary: i d0)
  case 0
  then have "\<not> i < count" by simp
  then have "backoffLoop scale maxd count i d0 = d0"
    by (subst backoffLoop.simps) simp
  with 0 show ?case by simp
next
  case (Suc m)
  then have lt: "i < count" by simp
  have up: "d0 * k < 2 ^ 53"
  proof -
    have "d0 * k \<le> maxd * k"
      using k Suc.prems(2) by (intro mult_right_mono) simp_all
    with cap show ?thesis by (simp add: mult.commute)
  qed
  have low: "- (2 ^ 53) < d0 * k"
  proof (cases "0 \<le> d0")
    case True
    then have "0 \<le> d0 * k" using k by simp
    then show ?thesis by (simp add: less_le_trans [of "- (2 ^ 53)" 0])
  next
    case False
    show ?thesis
    proof (cases "k = 0")
      case True
      then show ?thesis by simp
    next
      case k0: False
      with k have "1 \<le> k ^ m" by simp
      then have "k * 1 \<le> k * k ^ m"
        using k by (intro mult_left_mono) simp_all
      with False have "d0 * (k * k ^ m) \<le> d0 * (k * 1)"
        using mult_left_mono_neg [of "k * 1" "k * k ^ m" d0] by simp
      with Suc.prems(3) show ?thesis by simp
    qed
  qed
  have sc: "scale d0 = d0 * k"
    using ex low up by blast
  show ?case
  proof (cases "d0 * k > maxd")
    case True
    have big: "maxd < d0 * k ^ Suc m"
    proof (cases "k = 0")
      case True
      with \<open>maxd < d0 * k\<close> show ?thesis by simp
    next
      case k0: False
      with k have k1: "1 \<le> k" by simp
      have "d0 < d0 * k" using True Suc.prems(2) by simp
      then have "0 < d0 * (k - 1)" by (simp add: algebra_simps)
      with k1 have dpos: "0 < d0"
        by (simp add: zero_less_mult_iff)
      have "1 \<le> k ^ m" using k1 by simp
      then have "d0 * k * 1 \<le> d0 * k * k ^ m"
        using dpos k1 by (intro mult_left_mono) simp_all
      with True show ?thesis by (simp add: mult.assoc)
    qed
    have "backoffLoop scale maxd count i d0 = maxd"
      using lt True sc by (subst backoffLoop.simps) (simp add: Let_def)
    with big show ?thesis by simp
  next
    case False
    have m: "m = nat (count - (i + 1))"
      using Suc.prems by simp
    have le: "d0 * k \<le> maxd" using False by simp
    have lo: "- (2 ^ 53) < d0 * k * k ^ m"
      using Suc.prems(3) by (simp add: mult.assoc)
    have "backoffLoop scale maxd count i d0
            = backoffLoop scale maxd count (i + 1) (d0 * k)"
      using lt False sc by (subst backoffLoop.simps) (simp add: Let_def)
    also have "\<dots> = min (d0 * k * k ^ m) maxd"
      by (rule Suc.IH [OF m le lo])
    finally show ?thesis by (simp add: mult.assoc)
  qed
qed

text \<open>
  C4, as the code has it. Let the policy have \<open>RestartDelay \<le> MaxBackoffDelay\<close> and
  a \<open>BackoffFactor\<close> that is a whole number \<open>k \<ge> 0\<close>, with \<open>k * MaxBackoffDelay\<close>
  below \<open>2 ^ 53\<close> and \<open>RestartDelay * k ^ (n - 1)\<close> above \<open>- 2 ^ 53\<close>, so that
  every product the loop forms is a whole number that \<open>float64\<close> holds exactly.
  Then for every restart count \<open>n \<ge> 1\<close> the delay is the specified
  \<open>min (RestartDelay * k ^ (n - 1)) MaxBackoffDelay\<close>; and the delay depends on the
  policy and the current restart count only.
\<close>

theorem calculateBackoff_closed_form:
  assumes "1 \<le> restartCount sg"
    and "RestartDelay (policy sg) \<le> MaxBackoffDelay (policy sg)"
    and "BackoffFactor (policy sg) = Finite (of_int k)"
    and "0 \<le> k"
    and "k * MaxBackoffDelay (policy sg) < 2 ^ 53"
    and "- (2 ^ 53) < RestartDelay (policy sg) * k ^ nat (restartCount sg - 1)"
  shows "specifiedBackoff sg = Some (of_int (calculateBackoff sg)) \<and>
         calculateBackoff sg
           = min (RestartDelay (policy sg) * k ^ nat (restartCount sg - 1))
                 (MaxBackoffDelay (policy sg)) \<and>
         (\<forall>sg'. policy sg' = policy sg \<and> restartCount sg' = restartCount sg
                 \<longrightarrow> calculateBackoff sg' = calculateBackoff sg)"
proof (intro conjI)
  have ex: "\<forall>d. - (2 ^ 53) < d * k \<and> d * k < 2 ^ 53
              \<longrightarrow> durationMul d (BackoffFactor (policy sg)) = d * k"
    using assms(3,4) by (simp add: durationMul_whole)
  show closed: "calculateBackoff sg
          = min (RestartDelay (policy sg) * k ^ nat (restartCount sg - 1))
                (MaxBackoffDelay (policy sg))"
    unfolding calculateBackoff_def
    by (rule backoffLoop_exact [OF assms(4) ex assms(5) _ assms(2) assms(6)]) simp
  show "specifiedBackoff sg = Some (of_int (calculateBackoff sg))"
    by (simp add: specifiedBackoff_def assms(3) backoffFormula_def closed of_int_min_rat)
  show "\<forall>sg'. policy sg' = policy sg \<and> restartCount sg' = restartCount sg
              \<longrightarrow> calculateBackoff sg' = calculateBackoff sg"
    by (simp add: calculateBackoff_def)
qed

theorem calculateBackoff_closed_form_witness:
  "calculateBackoff (worker0\<lparr>restartCount := 3\<rparr>) = 4000000000 \<and>
   specifiedBackoff (worker0\<lparr>restartCount := 3\<rparr>) = Some 4000000000 \<and>
   calculateBackoff (worker0\<lparr>restartCount := 7\<rparr>) = 30000000000 \<and>
   specifiedBackoff (worker0\<lparr>restartCount := 7\<rparr>) = Some 30000000000"
proof -
  have f: "BackoffFactor (policy (worker0\<lparr>restartCount := n\<rparr>)) = Finite (of_int 2)" for n
    by (simp add: worker0_simps)
  have p: "(2::int) ^ 6 = 64" by simp
  from calculateBackoff_closed_form [of "worker0\<lparr>restartCount := 3\<rparr>" 2, OF _ _ f]
  have a: "calculateBackoff (worker0\<lparr>restartCount := 3\<rparr>) = 4000000000"
    "specifiedBackoff (worker0\<lparr>restartCount := 3\<rparr>)
       = Some (of_int (calculateBackoff (worker0\<lparr>restartCount := 3\<rparr>)))"
    by (simp_all add: worker0_simps)
  from calculateBackoff_closed_form [of "worker0\<lparr>restartCount := 7\<rparr>" 2, OF _ _ f]
  have b: "calculateBackoff (worker0\<lparr>restartCount := 7\<rparr>) = 30000000000"
    "specifiedBackoff (worker0\<lparr>restartCount := 7\<rparr>)
       = Some (of_int (calculateBackoff (worker0\<lparr>restartCount := 7\<rparr>)))"
    by (simp_all add: worker0_simps p)
  from a b show ?thesis by simp
qed

text \<open>
  The claim as stated fails, once for each condition above. At the first restart of
  a policy whose base delay is above the cap, the loop body, which alone applies the
  cap, does not run: the delay is the base delay of 60 s, not the cap of 30 s. With
  the factor 1.5 on a base delay of 1 ns the product is truncated to whole
  nanoseconds at every step: the third delay is 1 ns, where the formula gives
  2.25 ns. A base delay of \<open>2 ^ 53 + 1\<close> ns is rounded by \<open>float64\<close> to \<open>2 ^ 53\<close>
  before it is multiplied by 1.0, and likewise \<open>- (2 ^ 53 + 1)\<close> to \<open>- 2 ^ 53\<close>.
  With the factor -20 the second product, 400 ns, exceeds the cap of 10 ns and the
  loop stops there, where the formula gives -8000 ns for the fourth restart.
\<close>

theorem calculateBackoff_counterexample:
  "calculateBackoff capped_below_base = 60000000000 \<and>
   specifiedBackoff capped_below_base = Some 30000000000 \<and>
   calculateBackoff fractional_factor = 1 \<and>
   specifiedBackoff fractional_factor = Some (9 / 4) \<and>
   calculateBackoff beyond_float = 2 ^ 53 \<and>
   specifiedBackoff beyond_float = Some (2 ^ 53 + 1) \<and>
   calculateBackoff below_float = - (2 ^ 53) \<and>
   specifiedBackoff below_float = Some (- (2 ^ 53 + 1)) \<and>
   calculateBackoff negative_factor = 10 \<and>
   specifiedBackoff negative_factor = Some (- 8000)"
proof (intro conjI)
  show "calculateBackoff capped_below_base = 60000000000"
    by (simp add: capped_below_base_def Register_worker_def DefaultRestartPolicy_def
          calculateBackoff_def backoffLoop.simps)
  show "specifiedBackoff capped_below_base = Some 30000000000"
    by (simp add: capped_below_base_def Register_worker_def DefaultRestartPolicy_def
          specifiedBackoff_def backoffFormula_def)
  show "calculateBackoff fractional_factor = 1"
    by (simp add: fractional_factor_def Register_worker_def DefaultRestartPolicy_def
          calculateBackoff_def backoffLoop.simps float_eval)
  show "specifiedBackoff fractional_factor = Some (9 / 4)"
    by (simp add: fractional_factor_def Register_worker_def DefaultRestartPolicy_def
          specifiedBackoff_def backoffFormula_def power2_eq_square)
  show "calculateBackoff beyond_float = 2 ^ 53"
    by (simp add: beyond_float_def Register_worker_def DefaultRestartPolicy_def
          calculateBackoff_def backoffLoop.simps float_eval)
  show "specifiedBackoff beyond_float = Some (2 ^ 53 + 1)"
    by (simp add: beyond_float_def Register_worker_def DefaultRestartPolicy_def
          specifiedBackoff_def backoffFormula_def)
  show "calculateBackoff below_float = - (2 ^ 53)"
    by (simp add: below_float_def Register_worker_def DefaultRestartPolicy_def
          calculateBackoff_def backoffLoop.simps float_eval)
  show "specifiedBackoff below_float = Some (- (2 ^ 53 + 1))"
    by (simp add: below_float_def Register_worker_def DefaultRestartPolicy_def
          specifiedBackoff_def backoffFormula_def)
  show "calculateBackoff negative_factor = 10"
    by (simp add: negative_factor_def Register_worker_def DefaultRestartPolicy_def
          calculateBackoff_def backoffLoop.simps float_eval)
  show "specifiedBackoff negative_factor = Some (- 8000)"
    by (simp add: negative_factor_def Register_worker_def DefaultRestartPolicy_def
          specifiedBackoff_def backoffFormula_def)
qed

text \<open>
  Up to the first restart the loop body does not run, whatever the policy: the delay
  is the base delay.
\<close>

lemma calculateBackoff_first_restart:
  "restartCount sg \<le> 1 \<Longrightarrow> calculateBackoff sg = RestartDelay (policy sg)"
  by (simp add: calculateBackoff_def backoffLoop.simps)

section \<open>HealthMonitor: what resets the error streak\<close>

lemma updateStatus_status: "status (updateStatus s hm) = s"
  by (simp add: updateStatus_def Let_def)

lemma updateStatus_metrics: "metrics (updateStatus s hm) = metrics hm"
  by (simp add: updateStatus_def Let_def)

lemma two_errors_simps:
  "ConsecutiveErrors (metrics two_errors) = 2" "healthCheckFunc two_errors = None"
  "degradedThreshold two_errors = 3" "unhealthyThreshold two_errors = 5"
  "status two_errors = HealthUnknown"
  by (simp_all add: two_errors_def NewHealthMonitor_def)

text \<open>
  C5, as the code has it. \<open>RecordReconnectAttempt\<close> with \<open>success = true\<close> and a
  periodic check whose probe returns nil leave \<open>ConsecutiveErrors\<close> at 0;
  \<open>RecordMessageSent\<close> and \<open>RecordMessageReceived\<close> leave \<open>ConsecutiveErrors\<close> as it
  was.
\<close>

theorem success_resets_consecutiveErrors:
  "ConsecutiveErrors (metrics (RecordReconnectAttempt True now hm)) = 0 \<and>
   (\<forall>probe. healthCheckFunc hm = Some probe \<and> probe () = None \<longrightarrow>
      ConsecutiveErrors (metrics (performHealthCheck now hm)) = 0) \<and>
   ConsecutiveErrors (metrics (RecordMessageSent now hm)) = ConsecutiveErrors (metrics hm) \<and>
   ConsecutiveErrors (metrics (RecordMessageReceived now hm)) = ConsecutiveErrors (metrics hm)"
proof (intro conjI allI impI)
  show "ConsecutiveErrors (metrics (RecordReconnectAttempt True now hm)) = 0"
    by (simp add: RecordReconnectAttempt_def Let_def)
next
  fix probe
  assume "healthCheckFunc hm = Some probe \<and> probe () = None"
  then show "ConsecutiveErrors (metrics (performHealthCheck now hm)) = 0"
    by (simp add: performHealthCheck_def Let_def updateStatus_metrics)
next
  show "ConsecutiveErrors (metrics (RecordMessageSent now hm)) = ConsecutiveErrors (metrics hm)"
    by (simp add: RecordMessageSent_def Let_def)
next
  show "ConsecutiveErrors (metrics (RecordMessageReceived now hm)) = ConsecutiveErrors (metrics hm)"
    by (simp add: RecordMessageReceived_def Let_def)
qed

theorem success_resets_consecutiveErrors_witness:
  "healthCheckFunc (SetHealthCheckFunc (\<lambda>u. None) two_errors) = Some (\<lambda>u. None) \<and>
   ConsecutiveErrors (metrics (performHealthCheck 9 (SetHealthCheckFunc (\<lambda>u. None) two_errors))) = 0 \<and>
   ConsecutiveErrors (metrics (RecordReconnectAttempt True 9 two_errors)) = 0 \<and>
   ConsecutiveErrors (metrics (RecordMessageSent 9 two_errors)) = 2"
proof -
  have h: "healthCheckFunc (SetHealthCheckFunc (\<lambda>u. None) two_errors) = Some (\<lambda>u. None)"
    by (simp add: SetHealthCheckFunc_def)
  from success_resets_consecutiveErrors [of 9 "SetHealthCheckFunc (\<lambda>u. None) two_errors"] h
  have a: "ConsecutiveErrors (metrics (performHealthCheck 9 (SetHealthCheckFunc (\<lambda>u. None) two_errors))) = 0"
    by blast
  from success_resets_consecutiveErrors [of 9 two_errors]
  have b: "ConsecutiveErrors (metrics (RecordReconnectAttempt True 9 two_errors)) = 0"
    and c: "ConsecutiveErrors (metrics (RecordMessageSent 9 two_errors)) = 2"
    by (simp_all add: two_errors_simps)
  from h a b c show ?thesis by blast
qed

text \<open>
  The claim as stated fails: after two failed messages, recording a sent or a
  received message leaves \<open>ConsecutiveErrors\<close> at 2.
\<close>

theorem success_resets_consecutiveErrors_counterexample:
  "ConsecutiveErrors (metrics two_errors) = 2 \<and>
   ConsecutiveErrors (metrics (RecordMessageSent 9 two_errors)) = 2 \<and>
   ConsecutiveErrors (metrics (RecordMessageReceived 9 two_errors)) = 2"
  by (simp add: two_errors_def NewHealthMonitor_def RecordMessageSent_def
        RecordMessageReceived_def Let_def)

section \<open>HealthMonitor: the status after a periodic check\<close>

text \<open>
  C6, as the code has it. With positive thresholds: a periodic check of a monitor
  with no probe set changes nothing, the status included; a periodic check of a
  monitor with a probe set leaves the status \<open>HealthHealthy\<close> when
  \<open>ConsecutiveErrors\<close> is 0, \<open>HealthUnhealthy\<close> when it is at least
  \<open>unhealthyThreshold\<close>, \<open>HealthDegraded\<close> when it is at least \<open>degradedThreshold\<close> and
  below \<open>unhealthyThreshold\<close>, and \<open>HealthHealthy\<close> for every remaining positive
  count.
\<close>

theorem health_check_status:
  assumes "0 < degradedThreshold hm" and "0 < unhealthyThreshold hm"
  shows "(healthCheckFunc hm = None \<longrightarrow> performHealthCheck now hm = hm) \<and>
         (healthCheckFunc hm \<noteq> None \<longrightarrow>
            (ConsecutiveErrors (metrics (performHealthCheck now hm)) = 0 \<longrightarrow>
               status (performHealthCheck now hm) = HealthHealthy) \<and>
            (ConsecutiveErrors (metrics (performHealthCheck now hm)) \<ge> unhealthyThreshold hm \<longrightarrow>
               status (performHealthCheck now hm) = HealthUnhealthy) \<and>
            (degradedThreshold hm \<le> ConsecutiveErrors (metrics (performHealthCheck now hm)) \<and>
             ConsecutiveErrors (metrics (performHealthCheck now hm)) < unhealthyThreshold hm \<longrightarrow>
               status (performHealthCheck now hm) = HealthDegraded) \<and>
            (0 < ConsecutiveErrors (metrics (performHealthCheck now hm)) \<and>
             ConsecutiveErrors (metrics (performHealthCheck now hm)) < degradedThreshold hm \<and>
             ConsecutiveErrors (metrics (performHealthCheck now hm)) < unhealthyThreshold hm \<longrightarrow>
               status (performHealthCheck now hm) = HealthHealthy))"
proof (cases "healthCheckFunc hm")
  case None
  then show ?thesis by (simp add: performHealthCheck_def)
next
  case (Some probe)
  show ?thesis
  proof (cases "probe ()")
    case None
    with Some assms show ?thesis
      by (simp add: performHealthCheck_def Let_def updateStatus_metrics updateStatus_status)
  next
    case (Some e)
    with \<open>healthCheckFunc hm = Some probe\<close> assms show ?thesis
      by (simp add: performHealthCheck_def Let_def updateStatus_metrics updateStatus_status)
  qed
qed

theorem health_check_status_witness:
  "0 < degradedThreshold (SetHealthCheckFunc (\<lambda>u. Some ''down'') two_errors) \<and>
   0 < unhealthyThreshold (SetHealthCheckFunc (\<lambda>u. Some ''down'') two_errors) \<and>
   healthCheckFunc (SetHealthCheckFunc (\<lambda>u. Some ''down'') two_errors) \<noteq> None \<and>
   ConsecutiveErrors (metrics (performHealthCheck 9 (SetHealthCheckFunc (\<lambda>u. Some ''down'') two_errors))) = 3 \<and>
   status (performHealthCheck 9 (SetHealthCheckFunc (\<lambda>u. Some ''down'') two_errors)) = HealthDegraded"
proof -
  let ?hm = "SetHealthCheckFunc (\<lambda>u. Some ''down'') two_errors"
  have d: "0 < degradedThreshold ?hm" and u: "0 < unhealthyThreshold ?hm"
    and p: "healthCheckFunc ?hm \<noteq> None"
    and dt: "degradedThreshold ?hm = 3" "unhealthyThreshold ?hm = 5"
    by (simp_all add: SetHealthCheckFunc_def two_errors_simps)
  have c: "ConsecutiveErrors (metrics (performHealthCheck 9 ?hm)) = 3"
    by (simp add: performHealthCheck_def SetHealthCheckFunc_def Let_def updateStatus_metrics
          two_errors_simps)
  from health_check_status [OF d u, of 9] p c dt
  have "status (performHealthCheck 9 ?hm) = HealthDegraded"
    by simp
  with d u p c show ?thesis by blast
qed

text \<open>
  The claim as stated fails on a new monitor, which has no probe: the periodic check
  returns at once, and the status is still \<open>HealthUnknown\<close> with \<open>ConsecutiveErrors\<close>
  at 0.
\<close>

theorem health_check_status_counterexample:
  "ConsecutiveErrors (metrics (performHealthCheck 9 (NewHealthMonitor 1000))) = 0 \<and>
   status (performHealthCheck 9 (NewHealthMonitor 1000)) = HealthUnknown \<and>
   status (performHealthCheck 9 (NewHealthMonitor 1000)) \<noteq> HealthHealthy"
  by (simp add: performHealthCheck_def NewHealthMonitor_def)

section \<open>HealthMonitor: the latency window\<close>

lemma int64_id: "inInt64 k \<Longrightarrow> int64 k = k"
  by (simp add: inInt64_def int64_def signed_take_bit_int_eq_self)

lemma int64_add_left: "int64 (int64 a + b) = int64 (a + b)"
  by (simp add: int64_def signed_take_bit_add [symmetric, of 63 a b]
        signed_take_bit_add [symmetric, of 63 "signed_take_bit 63 a" b])

lemma foldl_int64_sum:
  "int64 (foldl (\<lambda>total l. int64 (total + l)) a w) = int64 (a + sum_list w)"
proof (induction w arbitrary: a)
  case Nil
  show ?case by simp
next
  case (Cons x w)
  have "int64 (foldl (\<lambda>total l. int64 (total + l)) a (x # w))
          = int64 (int64 (a + x) + sum_list w)"
    using Cons.IH [of "int64 (a + x)"] by simp
  also have "\<dots> = int64 (a + x + sum_list w)"
    by (rule int64_add_left)
  finally show ?case by (simp add: add.assoc)
qed

lemma int64_idem: "int64 (int64 k) = int64 k"
  by (simp add: int64_def)

lemma foldl_int64_wrapped:
  "w \<noteq> [] \<Longrightarrow> int64 (foldl (\<lambda>total l. int64 (total + l)) a w)
               = foldl (\<lambda>total l. int64 (total + l)) a w"
proof (induction w arbitrary: a rule: rev_induct)
  case Nil
  then show ?case by simp
next
  case (snoc x w)
  show ?case by (simp add: int64_idem)
qed

lemma total_exact:
  assumes "inInt64 (sum_list w)"
  shows "foldl (\<lambda>total l. int64 (total + l)) 0 w = sum_list w"
proof (cases "w = []")
  case True
  then show ?thesis by simp
next
  case False
  then have "foldl (\<lambda>total l. int64 (total + l)) 0 w
               = int64 (foldl (\<lambda>total l. int64 (total + l)) 0 w)"
    by (simp add: foldl_int64_wrapped)
  also have "\<dots> = int64 (0 + sum_list w)"
    by (rule foldl_int64_sum)
  also have "\<dots> = sum_list w"
    using assms by (simp add: int64_id)
  finally show ?thesis .
qed

lemma div_le_self_int:
  fixes a n :: int
  assumes "0 \<le> a" and "0 < n"
  shows "a div n \<le> a"
proof -
  have "a div n \<le> a div 1"
    using assms by (intro zdiv_mono2) simp_all
  then show ?thesis by simp
qed

lemma sdiv_pos_bounds:
  fixes s n :: int
  assumes "0 < n"
  shows "min s 0 \<le> s sdiv n \<and> s sdiv n \<le> max s 0"
proof -
  have q: "0 \<le> \<bar>s\<bar> div n" "\<bar>s\<bar> div n \<le> \<bar>s\<bar>"
    using assms by (simp_all add: pos_imp_zdiv_nonneg_iff div_le_self_int)
  have "s sdiv n = sgn s * (\<bar>s\<bar> div n)"
    using assms by (simp add: signed_divide_int_def)
  with q show ?thesis
    by (cases "s < 0"; cases "s = 0") (simp_all add: sgn_if)
qed

lemma inInt64_sdiv:
  assumes "inInt64 s" and "0 < n"
  shows "inInt64 (s sdiv n)"
  using assms(1) sdiv_pos_bounds [OF assms(2), of s]
  by (auto simp: inInt64_def)

text \<open>
  C8, as the code has it. For a monitor with a positive capacity \<open>maxLatencySamples\<close>
  (a Go \<open>int\<close>), \<open>RecordLatency\<close> returns without a panic. The window it leaves is
  the old window without its oldest samples, as many as exceed the capacity, followed
  by the new sample; it holds at most \<open>maxLatencySamples\<close> samples; \<open>CurrentLatency\<close>
  is the sample just recorded; and, provided the sum of the retained samples fits an
  \<open>int64\<close>, \<open>AverageLatency\<close> is that sum divided by their number with Go's integer
  division: the arithmetic mean in whole nanoseconds, truncated towards zero.
\<close>

theorem RecordLatency_window_mean:
  assumes "0 < maxLatencySamples hm" and "inInt64 (maxLatencySamples hm)"
  shows "\<exists>hm'. RecordLatency latency hm = Inr hm' \<and>
           latencyWindow hm'
             = drop (length (latencyWindow hm) + 1 - nat (maxLatencySamples hm)) (latencyWindow hm)
                 @ [latency] \<and>
           int (length (latencyWindow hm')) \<le> maxLatencySamples hm \<and>
           latencyWindow hm' \<noteq> [] \<and>
           CurrentLatency (metrics hm') = latency \<and>
           (inInt64 (sum_list (latencyWindow hm')) \<longrightarrow>
              AverageLatency (metrics hm')
                = sum_list (latencyWindow hm') sdiv int (length (latencyWindow hm')))"
proof -
  let ?w = "latencyWindow hm"
  let ?m = "maxLatencySamples hm"
  let ?d = "length ?w + 1 - nat ?m"
  let ?w2 = "drop ?d ?w @ [latency]"
  let ?total = "foldl (\<lambda>total l. int64 (total + l)) 0 ?w2"
  let ?avg = "int64 (?total sdiv int64 (int (length ?w2)))"
  let ?hm' = "hm\<lparr>latencyWindow := ?w2,
                  metrics := (metrics hm)\<lparr>CurrentLatency := latency, AverageLatency := ?avg\<rparr>\<rparr>"
  have dle: "?d \<le> length ?w"
    using assms(1) by simp
  have trim: "(if int (length (?w @ [latency])) > ?m
               then drop (nat (int (length (?w @ [latency])) - ?m)) (?w @ [latency])
               else ?w @ [latency]) = ?w2"
  proof (cases "int (length (?w @ [latency])) > ?m")
    case True
    have "nat (int (length (?w @ [latency])) - ?m) = ?d"
      using assms(1) by simp
    with True dle show ?thesis by simp
  next
    case False
    then have "?d = 0" by simp
    with False show ?thesis by simp
  qed
  have nopanic: "\<not> (int (length (?w @ [latency])) > ?m
                  \<and> int (length (?w @ [latency])) - ?m > int (length (?w @ [latency])))"
    using assms(1) by simp
  have run: "RecordLatency latency hm = Inr ?hm'"
    unfolding RecordLatency_def Let_def
    by (simp only: nopanic trim if_False) simp
  have len: "int (length ?w2) \<le> ?m"
    using assms(1) by simp
  have mean: "?avg = sum_list ?w2 sdiv int (length ?w2)" if r: "inInt64 (sum_list ?w2)"
  proof -
    have n: "inInt64 (int (length ?w2))"
      using len assms(2) by (simp add: inInt64_def)
    have pos: "0 < int (length ?w2)" by simp
    have "?avg = int64 (sum_list ?w2 sdiv int (length ?w2))"
      by (simp only: total_exact [OF r] int64_id [OF n])
    also have "\<dots> = sum_list ?w2 sdiv int (length ?w2)"
      by (rule int64_id [OF inInt64_sdiv [OF r pos]])
    finally show ?thesis .
  qed
  have "latencyWindow ?hm' = ?w2" "CurrentLatency (metrics ?hm') = latency"
    "AverageLatency (metrics ?hm') = ?avg"
    by simp_all
  with run len mean show ?thesis
    by (intro exI [of _ ?hm']) simp
qed

theorem RecordLatency_window_mean_witness:
  "0 < maxLatencySamples small_window \<and> inInt64 (maxLatencySamples small_window) \<and>
   (\<exists>hm'. RecordLatency 70 small_window = Inr hm' \<and>
          latencyWindow hm' = [20, 30, 70] \<and>
          CurrentLatency (metrics hm') = 70 \<and>
          AverageLatency (metrics hm') = 40)"
proof -
  have a: "0 < maxLatencySamples small_window" and b: "inInt64 (maxLatencySamples small_window)"
    and w: "latencyWindow small_window = [10, 20, 30]" "maxLatencySamples small_window = 3"
    by (simp_all add: small_window_def inInt64_def)
  from RecordLatency_window_mean [OF a b, of 70]
  obtain hm' where r: "RecordLatency 70 small_window = Inr hm'"
    and win: "latencyWindow hm' = drop (length (latencyWindow small_window) + 1
                - nat (maxLatencySamples small_window)) (latencyWindow small_window) @ [70]"
    and cur: "CurrentLatency (metrics hm') = 70"
    and avg: "inInt64 (sum_list (latencyWindow hm')) \<longrightarrow>
                AverageLatency (metrics hm')
                  = sum_list (latencyWindow hm') sdiv int (length (latencyWindow hm'))"
    by blast
  from win have win': "latencyWindow hm' = [20, 30, 70]"
    by (simp add: w)
  from avg have "AverageLatency (metrics hm') = 40"
    by (simp add: win' inInt64_def signed_divide_int_def)
  with a b r win' cur show ?thesis by blast
qed

text \<open>
  The claim as stated fails in two ways. Two samples of the largest duration on a
  new monitor make the running total wrap around to -2: the average is -1, while the
  mean of the two retained samples is the largest duration itself. And the samples
  1 and 2 get the average 1, not the mean 1.5.
\<close>

theorem RecordLatency_window_mean_counterexample:
  "latencyReport (RecordLatencies [maxInt64, maxInt64] (NewHealthMonitor 1000))
     = Inr ([maxInt64, maxInt64], maxInt64, - 1) \<and>
   (maxInt64 + maxInt64) sdiv 2 = maxInt64 \<and>
   latencyReport (RecordLatencies [1, 2] (NewHealthMonitor 1000)) = Inr ([1, 2], 2, 1) \<and>
   2 * (1 :: int) \<noteq> 1 + 2"
proof -
  have m: "maxInt64 = 9223372036854775807"
    by (simp add: maxInt64_def)
  have a: "latencyReport (RecordLatencies [maxInt64, maxInt64] (NewHealthMonitor 1000))
             = Inr ([maxInt64, maxInt64], maxInt64, - 1)"
    by (simp add: m latencyReport_def RecordLatency_def NewHealthMonitor_def int64_def
          signed_divide_int_def Let_def)
  have b: "(maxInt64 + maxInt64) sdiv 2 = maxInt64"
    by (simp add: m signed_divide_int_def)
  have c: "latencyReport (RecordLatencies [1, 2] (NewHealthMonitor 1000)) = Inr ([1, 2], 2, 1)"
    by (simp add: latencyReport_def RecordLatency_def NewHealthMonitor_def int64_def
          signed_divide_int_def Let_def)
  from a b c show ?thesis by simp
qed

section \<open>ReconnectionManager: the contract\<close>

lemma sint_succ_go_int:
  fixes w :: go_int
  shows "sint (w + 1) = (if sint w = 2 ^ 63 - 1 then - (2 ^ 63) else sint w + 1)"
proof -
  have r: "- (2 ^ 63) \<le> sint w" "sint w < 2 ^ 63"
    using sint_ge [of w] sint_lt [of w] by simp_all
  have s: "sint (w + 1) = signed_take_bit 63 (sint w + 1)"
    by (simp add: sint_word_ariths)
  show ?thesis
  proof (cases "sint w = 2 ^ 63 - 1")
    case True
    then show ?thesis by (simp add: s)
  next
    case False
    with r have "- (2 ^ 63) \<le> sint w + 1" "sint w + 1 < 2 ^ 63"
      by simp_all
    then have "signed_take_bit 63 (sint w + 1) = sint w + 1"
      by (rule signed_take_bit_int_eq_self)
    with False show ?thesis by (simp add: s)
  qed
qed

text \<open>
  C10, as the code has it. For every \<open>ReconnectionManager\<close>: \<open>ShouldReconnect\<close> is
  true exactly when reconnection is enabled and the attempt counter is below
  \<open>maxAttempts\<close>; \<open>NextBackoff\<close> is the backoff function at the attempt counter when
  one is set and the fixed delay otherwise; \<open>Reset\<close> sets the attempt counter to 0;
  \<open>IncrementAttempts\<close> adds exactly 1 to it unless it is at the largest \<open>int\<close>, where
  it wraps around to the smallest; and apart from the attempt counter both leave the
  manager as it was. \<open>ShouldReconnect\<close> and \<open>NextBackoff\<close> only read.
\<close>

theorem reconnection_contract:
  "ShouldReconnect r = (enabled r \<and> sint (attempts r) < sint (maxAttempts r)) \<and>
   (\<forall>f. backoffFunc r = Some f \<longrightarrow> NextBackoff r = f (attempts r)) \<and>
   (backoffFunc r = None \<longrightarrow> NextBackoff r = delay r) \<and>
   attempts (Reset_attempts r) = 0 \<and>
   (Reset_attempts r)\<lparr>attempts := attempts r\<rparr> = r \<and>
   (sint (attempts r) < 2 ^ 63 - 1 \<longrightarrow>
      sint (attempts (IncrementAttempts r)) = sint (attempts r) + 1) \<and>
   (sint (attempts r) = 2 ^ 63 - 1 \<longrightarrow>
      sint (attempts (IncrementAttempts r)) = - (2 ^ 63)) \<and>
   (IncrementAttempts r)\<lparr>attempts := attempts r\<rparr> = r"
  by (simp add: ShouldReconnect_def NextBackoff_def Reset_attempts_def IncrementAttempts_def
        sint_succ_go_int)

lemma manager0_simps:
  "enabled manager0" "attempts manager0 = 2" "maxAttempts manager0 = 5"
  "backoffFunc manager0 = Some (\<lambda>n. 100 * n)" "delay manager0 = 1000"
  by (simp_all add: manager0_def)

theorem reconnection_contract_witness:
  "ShouldReconnect manager0 \<and> NextBackoff manager0 = 200 \<and>
   attempts (Reset_attempts manager0) = 0 \<and>
   sint (attempts manager0) < 2 ^ 63 - 1 \<and>
   sint (attempts (IncrementAttempts manager0)) = 3 \<and>
   NextBackoff (manager0\<lparr>backoffFunc := None\<rparr>) = 1000 \<and>
   sint (attempts at_max_int) = 2 ^ 63 - 1 \<and>
   sint (attempts (IncrementAttempts at_max_int)) = - (2 ^ 63)"
proof -
  note T = reconnection_contract [of manager0]
  have s2: "sint (attempts manager0) = 2" "sint (maxAttempts manager0) = 5"
    by (simp_all add: manager0_simps)
  from T have a: "ShouldReconnect manager0"
    by (simp add: manager0_simps)
  from T have "\<forall>f. backoffFunc manager0 = Some f \<longrightarrow> NextBackoff manager0 = f (attempts manager0)"
    by blast
  then have b: "NextBackoff manager0 = 200"
    by (simp add: manager0_simps)
  from T have c: "attempts (Reset_attempts manager0) = 0"
    by blast
  have lt: "sint (attempts manager0) < 2 ^ 63 - 1"
    by (simp add: s2)
  from T lt have "sint (attempts (IncrementAttempts manager0)) = sint (attempts manager0) + 1"
    by blast
  then have d: "sint (attempts (IncrementAttempts manager0)) = 3"
    by (simp add: s2)
  from reconnection_contract [of "manager0\<lparr>backoffFunc := None\<rparr>"]
  have e: "NextBackoff (manager0\<lparr>backoffFunc := None\<rparr>) = 1000"
    by (simp add: manager0_simps)
  have m: "sint (attempts at_max_int) = 2 ^ 63 - 1"
    by (simp add: at_max_int_def)
  from reconnection_contract [of at_max_int] m
  have f: "sint (attempts (IncrementAttempts at_max_int)) = - (2 ^ 63)"
    by blast
  from a b c lt d e m f show ?thesis by blast
qed

text \<open>
  The claim as stated fails at the largest \<open>int\<close>: \<open>IncrementAttempts\<close> takes the
  attempt counter to the smallest \<open>int\<close>, not one higher, and \<open>ShouldReconnect\<close>,
  false before, is true after.
\<close>

theorem reconnection_contract_counterexample:
  "sint (attempts at_max_int) = 9223372036854775807 \<and>
   sint (attempts (IncrementAttempts at_max_int)) = - 9223372036854775808 \<and>
   sint (attempts (IncrementAttempts at_max_int)) \<noteq> sint (attempts at_max_int) + 1 \<and>
   \<not> ShouldReconnect at_max_int \<and>
   ShouldReconnect (IncrementAttempts at_max_int)"
  by (simp add: at_max_int_def manager0_def IncrementAttempts_def ShouldReconnect_def)

end
